theory Spec2Isabelle
  imports Complex_Main
begin

section \<open>Numbers\<close>

text \<open>
  A JavaScript number is modelled as a real: the model covers finite values and leaves
  rounding of IEEE doubles out. A quotient whose divisor is zero is Infinity or NaN in the
  source and 0 in HOL, so the values of a frame that divide by a scene duration or by an
  image size mean what the source computes only for positive divisors; the theorems about
  them assume a positive duration.
\<close>

type_synonym num = real

text \<open>\<^verbatim>\<open>const clamp = (value, min, max) => Math.min(Math.max(value, min), max)\<close>\<close>

definition clamp :: "num \<Rightarrow> num \<Rightarrow> num \<Rightarrow> num" where
  "clamp v lo hi = min (max v lo) hi"

text \<open>
  \<^verbatim>\<open>const easeInOutCubic = (t) => (t < 0.5 ? 4 * t * t * t : 1 - Math.pow(-2 * t + 2, 3) / 2)\<close>
\<close>

definition easeInOutCubic :: "num \<Rightarrow> num" where
  "easeInOutCubic t = (if t < 0.5 then 4 * t * t * t else 1 - (- 2 * t + 2) ^ 3 / 2)"

text \<open>\<open>Math.round\<close>: the nearest integer, a tie going towards plus infinity.\<close>

definition Math_round :: "num \<Rightarrow> int" where
  "Math_round v = \<lfloor>v + 1 / 2\<rfloor>"

section \<open>Scenes\<close>

record SceneConfig =
  title :: string
  subtitle :: string
  description :: string
  image :: string
  start :: num
  duration :: num

text \<open>The scene list and total duration the page configures (\<open>SCENES\<close>, \<open>VIDEO_DURATION_SECONDS\<close>).\<close>

definition SCENES :: "SceneConfig list" where
  "SCENES =
    [\<lparr>title = ''Sunrise at Burj Khalifa'',
      subtitle = ''Witness the city ignite in gold from the tallest tower on Earth.'',
      description = ''Capture breathtaking vistas as dawn paints the Dubai skyline in amber hues.'',
      image = ''/assets/burj-khalifa.jpg'', start = 0, duration = 6\<rparr>,
     \<lparr>title = ''Arabian Desert Dunes'',
      subtitle = ''Ride the winds across endless dunes bathed in desert light.'',
      description = ''Feel the adrenaline of a desert safari, camel treks, and sandboarding adventures.'',
      image = ''/assets/desert-safari.jpg'', start = 6, duration = 6\<rparr>,
     \<lparr>title = ''Dubai Creek Heritage'',
      subtitle = ''Sail past souks and wind towers where tradition meets modern flair.'',
      description = ''Glide along the creek on an abra as spices and perfumes fill the evening air.'',
      image = ''/assets/dubai-creek.jpg'', start = 12, duration = 6\<rparr>,
     \<lparr>title = ''Iconic Palm Jumeirah'',
      subtitle = ''Discover man-made marvels framed by turquoise Arabian Gulf waters.'',
      description = ''Luxury resorts, skydiving thrills, and oceanside dining define the Palm experience.'',
      image = ''/assets/palm-jumeirah.jpg'', start = 18, duration = 6\<rparr>,
     \<lparr>title = ''Dubai Marina Nights'',
      subtitle = ''Immerse yourself in neon reflections and waterfront glamour.'',
      description = ''Indulge in rooftop lounges, yacht cruises, and Michelin-star cuisine after dark.'',
      image = ''/assets/dubai-marina.jpg'', start = 24, duration = 6\<rparr>]"

definition VIDEO_DURATION_SECONDS :: num where
  "VIDEO_DURATION_SECONDS = 30"

section \<open>The scene-selection loop of drawFrame\<close>

text \<open>
  \<^verbatim>\<open>
  let accumulated = 0;
  let sceneIndex = scenes.length - 1;
  for (let i = 0; i < scenes.length; i += 1) {
    const scene = scenes[i];
    const sceneStart = accumulated;
    const sceneEnd = accumulated + scene.duration;
    if (elapsedSeconds >= sceneStart && elapsedSeconds < sceneEnd) { sceneIndex = i; break; }
    accumulated += scene.duration;
  }
  \<close>
  \<open>sceneLoop\<close> runs the loop from index \<open>i\<close> over the scenes not yet visited; it returns
  the index the \<open>break\<close> left, if any, and the final value of \<open>accumulated\<close>.
\<close>

fun sceneLoop :: "SceneConfig list \<Rightarrow> num \<Rightarrow> nat \<Rightarrow> num \<Rightarrow> nat option \<times> num" where
  "sceneLoop [] elapsedSeconds i accumulated = (None, accumulated)"
| "sceneLoop (scene # rest) elapsedSeconds i accumulated =
     (let sceneStart = accumulated;
          sceneEnd = accumulated + duration scene
      in if elapsedSeconds \<ge> sceneStart \<and> elapsedSeconds < sceneEnd
         then (Some i, accumulated)
         else sceneLoop rest elapsedSeconds (i + 1) (accumulated + duration scene))"

text \<open>
  The values of \<open>sceneIndex\<close> and \<open>accumulated\<close> after the loop. Without a \<open>break\<close> the index
  keeps its initial value \<open>scenes.length - 1\<close>, which is \<open>-1\<close> for an empty list.
\<close>

definition resolveScene :: "SceneConfig list \<Rightarrow> num \<Rightarrow> int \<times> num" where
  "resolveScene scenes elapsedSeconds =
     (case sceneLoop scenes elapsedSeconds 0 0 of
        (Some i, accumulated) \<Rightarrow> (int i, accumulated)
      | (None, accumulated) \<Rightarrow> (int (length scenes) - 1, accumulated))"

text \<open>The start of scene \<open>i\<close>'s window: the sum of the durations before it.\<close>

definition cumulativeStart :: "SceneConfig list \<Rightarrow> nat \<Rightarrow> num" where
  "cumulativeStart scenes i = sum_list (map duration (take i scenes))"

section \<open>Zoom and text opacity\<close>

text \<open>\<^verbatim>\<open>const zoom = 1 + 0.06 * easeInOutCubic(sceneProgress)\<close>\<close>

definition zoom :: "num \<Rightarrow> num" where
  "zoom sceneProgress = 1 + 0.06 * easeInOutCubic sceneProgress"

text \<open>
  \<^verbatim>\<open>
  const fadeWindow = Math.min(0.75, scene.duration / 3);
  const fadeIn = clamp(sceneElapsed / fadeWindow, 0, 1);
  const fadeOut = clamp((scene.duration - sceneElapsed) / fadeWindow, 0, 1);
  const textOpacity = Math.min(fadeIn, fadeOut);
  \<close>
\<close>

definition fadeWindow :: "num \<Rightarrow> num" where
  "fadeWindow d = min 0.75 (d / 3)"

definition textOpacity :: "num \<Rightarrow> num \<Rightarrow> num" where
  "textOpacity d sceneElapsed =
     (let fadeIn = clamp (sceneElapsed / fadeWindow d) 0 1;
          fadeOut = clamp ((d - sceneElapsed) / fadeWindow d) 0 1
      in min fadeIn fadeOut)"

section \<open>wrapText\<close>

text \<open>
  Strings are lists of code units below 256. \<open>text.split(' ')\<close> cuts at every space and
  keeps empty pieces, so it never returns an empty list.
\<close>

fun split_space :: "string \<Rightarrow> string list" where
  "split_space [] = [[]]"
| "split_space (c # cs) =
     (if c = CHR '' '' then [] # split_space cs
      else (case split_space cs of
              w # ws \<Rightarrow> (c # w) # ws
            | [] \<Rightarrow> [[c]]))"

text \<open>
  \<open>String.prototype.trim\<close> removes white space and line terminators at both ends; below
  256 these are the code units 9 to 13, 32 and 160.
\<close>

definition is_white :: "char \<Rightarrow> bool" where
  "is_white c = (c \<in> set [CHR 0x09, CHR 0x0A, CHR 0x0B, CHR 0x0C, CHR 0x0D, CHR 0x20, CHR 0xA0])"

definition trim :: "string \<Rightarrow> string" where
  "trim s = rev (dropWhile is_white (rev (dropWhile is_white s)))"

text \<open>A call \<open>context.fillText(text, x, y)\<close>.\<close>

type_synonym fillText = "string \<times> num \<times> num"

text \<open>
  \<^verbatim>\<open>
  for (let n = 0; n < words.length; n += 1) {
    const testLine = `${line}${words[n]} `;
    const metrics = context.measureText(testLine);
    if (metrics.width > maxWidth && n > 0) {
      context.fillText(line.trim(), x, lineY);
      line = `${words[n]} `;
      lineY += lineHeight;
    } else {
      line = testLine;
    }
  }
  context.fillText(line.trim(), x, lineY);
  \<close>
  \<open>wrapLoop\<close> runs the loop over the words from index \<open>n\<close> on and returns the \<open>fillText\<close> calls
  in order; \<open>measureText s\<close> is \<open>context.measureText(s).width\<close>.
\<close>

fun wrapLoop ::
  "(string \<Rightarrow> num) \<Rightarrow> num \<Rightarrow> num \<Rightarrow> num \<Rightarrow> string list \<Rightarrow> nat \<Rightarrow> string \<Rightarrow> num \<Rightarrow> fillText list"
where
  "wrapLoop measureText x maxWidth lineHeight [] n line lineY = [(trim line, x, lineY)]"
| "wrapLoop measureText x maxWidth lineHeight (word # rest) n line lineY =
     (let testLine = line @ word @ '' ''
      in if measureText testLine > maxWidth \<and> n > 0
         then (trim line, x, lineY)
              # wrapLoop measureText x maxWidth lineHeight rest (n + 1) (word @ '' '') (lineY + lineHeight)
         else wrapLoop measureText x maxWidth lineHeight rest (n + 1) testLine lineY)"

definition wrapText ::
  "(string \<Rightarrow> num) \<Rightarrow> string \<Rightarrow> num \<Rightarrow> num \<Rightarrow> num \<Rightarrow> num \<Rightarrow> fillText list"
where
  "wrapText measureText text x y maxWidth lineHeight =
     wrapLoop measureText x maxWidth lineHeight (split_space text) 0 [] y"

section \<open>drawFrame\<close>

text \<open>
  The component's props: the scene list, the total duration in seconds (the prop
  \<open>duration\<close>, named \<open>videoDuration\<close> here because \<open>duration\<close> is the scene's field), the frame
  rate and the resolution. An image is modelled by its size.
\<close>

record Size =
  width :: num
  height :: num

record VideoCanvasProps =
  scenes :: "SceneConfig list"
  videoDuration :: num
  fps :: num
  resolution :: Size

definition DEFAULT_RESOLUTION :: Size where
  "DEFAULT_RESOLUTION = \<lparr>width = 1280, height = 720\<rparr>"

text \<open>
  What one call of \<open>drawFrame\<close> puts on the canvas, as the values it computes and passes to
  the drawing calls; the fills with constant arguments (scrim, border, bar track, the
  \<open>Visit Dubai\<close> caption) are left out. \<open>readout\<close> is the number in the text
  \<^verbatim>\<open>`${Math.round(progress * 30)} sec`\<close>.
\<close>

record Frame =
  sceneIndex :: nat
  sceneElapsed :: num
  sceneProgress :: num
  frameZoom :: num
  drawX :: num
  drawY :: num
  drawWidth :: num
  drawHeight :: num
  frameOpacity :: num
  titleCall :: fillText
  subtitleCalls :: "fillText list"
  descriptionCalls :: "fillText list"
  barFill :: num
  readout :: int

text \<open>Reading \<open>xs[i]\<close>: \<open>undefined\<close> (here \<open>None\<close>) outside the array.\<close>

definition element :: "'a list \<Rightarrow> int \<Rightarrow> 'a option" where
  "element xs i = (if 0 \<le> i \<and> i < int (length xs) then Some (xs ! nat i) else None)"

text \<open>Reading a property of \<open>undefined\<close> throws a \<open>TypeError\<close>.\<close>

datatype jsError = TypeError

text \<open>The fonts set before the two \<open>wrapText\<close> calls.\<close>

definition subtitleFont :: string where
  "subtitleFont = ''30px '' @ [CHR 0x22] @ ''Inter'' @ [CHR 0x22] @ '', sans-serif''"

definition descriptionFont :: string where
  "descriptionFont = ''22px '' @ [CHR 0x22] @ ''Inter'' @ [CHR 0x22] @ '', sans-serif''"

text \<open>
  The part of \<open>drawFrame\<close> after the completion check. \<open>measureText font s\<close> is the width
  the context measures for \<open>s\<close> in \<open>font\<close>. \<open>scene.duration\<close> throws when \<open>scenes[sceneIndex]\<close>
  is \<open>undefined\<close>, \<open>image.width\<close> when \<open>images[sceneIndex]\<close> is.
\<close>

definition composeFrame ::
  "(string \<Rightarrow> string \<Rightarrow> num) \<Rightarrow> VideoCanvasProps \<Rightarrow> Size list \<Rightarrow> num \<Rightarrow> num \<Rightarrow> jsError + Frame"
where
  "composeFrame measureText props images elapsedMs progress =
     (let w = width (resolution props);
          h = height (resolution props);
          elapsedSeconds = elapsedMs / 1000;
          (index, accumulated) = resolveScene (scenes props) elapsedSeconds
      in case element (scenes props) index of
           None \<Rightarrow> Inl TypeError
         | Some scene \<Rightarrow>
             (let elapsed = elapsedSeconds - accumulated;
                  progressInScene = clamp (elapsed / duration scene) 0 1
              in case element images index of
                   None \<Rightarrow> Inl TypeError
                 | Some img \<Rightarrow>
                     (let baseScale = max (w / width img) (h / height img) * zoom progressInScene;
                          dw = width img * baseScale;
                          dh = height img * baseScale
                      in Inr \<lparr>sceneIndex = nat index,
                              sceneElapsed = elapsed,
                              sceneProgress = progressInScene,
                              frameZoom = zoom progressInScene,
                              drawX = w / 2 - dw / 2,
                              drawY = h / 2 - dh / 2,
                              drawWidth = dw,
                              drawHeight = dh,
                              frameOpacity = textOpacity (duration scene) elapsed,
                              titleCall = (title scene, 110, h - 150),
                              subtitleCalls =
                                wrapText (measureText subtitleFont) (subtitle scene) 110 (h - 100) (w - 220) 40,
                              descriptionCalls =
                                wrapText (measureText descriptionFont) (description scene) 110 (h - 60) (w - 220) 30,
                              barFill = (w - 220) * progress,
                              readout = Math_round (progress * 30)\<rparr>)))"

text \<open>
  \<open>drawFrame\<close> returns the progress it notifies and what it did next: it called
  \<open>options.onComplete\<close> and returned, it drew a frame, or it threw.
\<close>

datatype outcome = Completed | Drew Frame | Threw jsError

definition drawFrame ::
  "(string \<Rightarrow> string \<Rightarrow> num) \<Rightarrow> VideoCanvasProps \<Rightarrow> Size list \<Rightarrow> num \<Rightarrow> num \<times> outcome"
where
  "drawFrame measureText props images elapsedMs =
     (let totalDurationMs = videoDuration props * 1000;
          progress = clamp (elapsedMs / totalDurationMs) 0 1
      in (progress,
          if elapsedMs \<ge> totalDurationMs then Completed
          else (case composeFrame measureText props images elapsedMs progress of
                  Inl e \<Rightarrow> Threw e
                | Inr frame \<Rightarrow> Drew frame)))"

section \<open>The component and its host\<close>

datatype RenderStatus = Idle | LoadingAssets | Rendering | Complete | Error

datatype RecordingState = Inactive | Recording

datatype Promise = Pending | Resolved | Rejected string

text \<open>
  One capture: the \<open>MediaRecorder\<close> a call of \<open>renderVideo\<close> creates, the tracks of its
  stream, and the promise the call ends on (\<open>return await resultPromise\<close>).
\<close>

record Capture =
  recorderState :: RecordingState
  tracksLive :: bool
  resultPromise :: Promise

text \<open>
  What the closure \<open>tick\<close> holds: the images, and the capture whose recorder its
  \<open>onComplete\<close> stops.
\<close>

type_synonym tickClosure = "Size list \<times> nat"

text \<open>
  What the browser decides: whether \<open>window.MediaRecorder\<close> exists, whether
  \<open>canvas.getContext('2d')\<close> returns a context, which image sources load (and with what
  size), and the text widths. Calls of the browser that the source does not guard
  (\<open>captureStream\<close>, the \<open>MediaRecorder\<close> constructor, \<open>start\<close>) are taken not to throw.
\<close>

record Host =
  MEDIA_RECORDER_SUPPORT :: bool
  context2d :: bool
  decode :: "string \<Rightarrow> Size option"
  measureText :: "string \<Rightarrow> string \<Rightarrow> num"

text \<open>
  The refs of the component (\<open>canvasRef.current\<close> is non-null exactly when \<open>canvasRef\<close> holds),
  the browser's table of pending animation-frame requests with the next handle it will
  give out, the captures created so far, and everything the component has emitted: the
  calls of \<open>onStatusChange\<close>, \<open>onProgress\<close> and \<open>onError\<close> (the callbacks are optional
  props; the logs record the calls made when they are given), the frames drawn, and the
  exceptions no handler caught.
\<close>

record State =
  canvasRef :: bool
  animationRef :: "nat option"
  imageCacheRef :: "Size list option"
  startTimeRef :: num
  nextHandle :: nat
  frameRequests :: "(nat \<times> tickClosure) list"
  captures :: "Capture list"
  statusLog :: "RenderStatus list"
  progressLog :: "num list"
  errorLog :: "string list"
  drawn :: "Frame list"
  uncaught :: "jsError list"

text \<open>A mounted component before its first render; handles start at 1.\<close>

definition mounted :: State where
  "mounted = \<lparr>canvasRef = True, animationRef = None, imageCacheRef = None, startTimeRef = 0,
     nextHandle = 1, frameRequests = [], captures = [], statusLog = [], progressLog = [],
     errorLog = [], drawn = [], uncaught = []\<rparr>"

definition notifyStatus :: "RenderStatus \<Rightarrow> State \<Rightarrow> State" where
  "notifyStatus status s = s\<lparr>statusLog := statusLog s @ [status]\<rparr>"

definition notifyProgress :: "num \<Rightarrow> State \<Rightarrow> State" where
  "notifyProgress v s = s\<lparr>progressLog := progressLog s @ [v]\<rparr>"

definition onError :: "string \<Rightarrow> State \<Rightarrow> State" where
  "onError message s = s\<lparr>errorLog := errorLog s @ [message]\<rparr>"

text \<open>
  The browser's \<open>requestAnimationFrame\<close> files the callback under a fresh handle and
  returns the handle; \<open>cancelAnimationFrame\<close> removes the request with that handle.
\<close>

definition requestAnimationFrame :: "tickClosure \<Rightarrow> State \<Rightarrow> nat \<times> State" where
  "requestAnimationFrame callback s =
     (nextHandle s,
      s\<lparr>nextHandle := nextHandle s + 1,
        frameRequests := frameRequests s @ [(nextHandle s, callback)]\<rparr>)"

definition cancelAnimationFrame :: "nat \<Rightarrow> State \<Rightarrow> State" where
  "cancelAnimationFrame handle s =
     s\<lparr>frameRequests := filter (\<lambda>r. fst r \<noteq> handle) (frameRequests s)\<rparr>"

text \<open>
  \<^verbatim>\<open>
  if (animationRef.current) {
    cancelAnimationFrame(animationRef.current);
    animationRef.current = undefined;
  }
  \<close>
  The handle 0 is falsy.
\<close>

definition cancelAnimation :: "State \<Rightarrow> State" where
  "cancelAnimation s =
     (case animationRef s of
        None \<Rightarrow> s
      | Some handle \<Rightarrow>
          if handle \<noteq> 0 then (cancelAnimationFrame handle s)\<lparr>animationRef := None\<rparr> else s)"

text \<open>
  \<open>loadImages\<close>, with the wait for \<open>Promise.all(loaders)\<close> taken in one step. Of several
  images that fail, the model reports the first in scene order (the source reports the
  first to fail in time).
\<close>

fun loaders :: "(string \<Rightarrow> Size option) \<Rightarrow> SceneConfig list \<Rightarrow> string + Size list" where
  "loaders dec [] = Inr []"
| "loaders dec (scene # rest) =
     (case dec (image scene) of
        None \<Rightarrow> Inl (''Failed to load image '' @ image scene)
      | Some img \<Rightarrow>
          (case loaders dec rest of
             Inl message \<Rightarrow> Inl message
           | Inr images \<Rightarrow> Inr (img # images)))"

definition loadImages :: "Host \<Rightarrow> VideoCanvasProps \<Rightarrow> State \<Rightarrow> (string + Size list) \<times> State" where
  "loadImages host props s =
     (case imageCacheRef s of
        Some images \<Rightarrow> (Inr images, s)
      | None \<Rightarrow>
          (let s1 = notifyStatus LoadingAssets s
           in case loaders (decode host) (scenes props) of
                Inl message \<Rightarrow> (Inl message, s1)
              | Inr images \<Rightarrow> (Inr images, s1\<lparr>imageCacheRef := Some images\<rparr>)))"

text \<open>\<^verbatim>\<open>animationRef.current = requestAnimationFrame(tick)\<close>\<close>

definition requestTick :: "tickClosure \<Rightarrow> State \<Rightarrow> State" where
  "requestTick callback s =
     (case requestAnimationFrame callback s of
        (handle, s1) \<Rightarrow> s1\<lparr>animationRef := Some handle\<rparr>)"

text \<open>\<^verbatim>\<open>if (mediaRecorder.state !== 'inactive') { mediaRecorder.stop(); }\<close>\<close>

definition stopRecorder :: "nat \<Rightarrow> State \<Rightarrow> State" where
  "stopRecorder c s =
     (if c < length (captures s) \<and> recorderState (captures s ! c) \<noteq> Inactive
      then s\<lparr>captures := (captures s)[c := (captures s ! c)\<lparr>recorderState := Inactive\<rparr>]\<rparr>
      else s)"

text \<open>
  \<^verbatim>\<open>
  const tick = () => {
    if (!canvasRef.current) return;
    const elapsedMs = performance.now() - startTimeRef.current;
    drawFrame(context, images, elapsedMs, {
      onComplete: () => {
        onComplete();
        cancelAnimation();
        notifyStatus('complete');
        notifyProgress(1);
      }
    });
    animationRef.current = requestAnimationFrame(tick);
  };
  \<close>
  \<open>now\<close> is the value of \<open>performance.now()\<close>. An exception of \<open>drawFrame\<close> leaves \<open>tick\<close>
  before the next request.
\<close>

definition tick :: "Host \<Rightarrow> VideoCanvasProps \<Rightarrow> num \<Rightarrow> tickClosure \<Rightarrow> State \<Rightarrow> State" where
  "tick host props now callback s =
     (if \<not> canvasRef s then s
      else
        (let elapsedMs = now - startTimeRef s;
             (progress, out) = drawFrame (measureText host) props (fst callback) elapsedMs;
             s1 = notifyProgress progress s
         in case out of
              Threw e \<Rightarrow> s1\<lparr>uncaught := uncaught s1 @ [e]\<rparr>
            | Drew frame \<Rightarrow> requestTick callback (s1\<lparr>drawn := drawn s1 @ [frame]\<rparr>)
            | Completed \<Rightarrow>
                requestTick callback
                  (notifyProgress 1
                    (notifyStatus Complete
                      (cancelAnimation
                        (stopRecorder (snd callback) s1))))))"

text \<open>
  The browser runs the callback of a pending request: it takes the request out of its
  table and calls \<open>tick\<close>. A handle that is not pending runs nothing.
\<close>

definition animationFrame :: "Host \<Rightarrow> VideoCanvasProps \<Rightarrow> num \<Rightarrow> nat \<Rightarrow> State \<Rightarrow> State" where
  "animationFrame host props now handle s =
     (case map_of (frameRequests s) handle of
        None \<Rightarrow> s
      | Some callback \<Rightarrow>
          tick host props now callback
            (s\<lparr>frameRequests := filter (\<lambda>r. fst r \<noteq> handle) (frameRequests s)\<rparr>))"

text \<open>
  \<^verbatim>\<open>
  cancelAnimation();
  startTimeRef.current = performance.now();
  notifyProgress(0);
  notifyStatus('rendering');
  ...
  animationRef.current = requestAnimationFrame(tick);
  \<close>
\<close>

definition startAnimation :: "num \<Rightarrow> tickClosure \<Rightarrow> State \<Rightarrow> State" where
  "startAnimation now callback s =
     requestTick callback
       (notifyStatus Rendering
         (notifyProgress 0
           ((cancelAnimation s)\<lparr>startTimeRef := now\<rparr>)))"

text \<open>
  The body of the \<open>try\<close> block of \<open>renderVideo\<close> up to \<open>await resultPromise\<close>: \<open>Inl\<close> is the
  message of the error thrown, \<open>Inr\<close> the capture whose promise the call now waits for.
  The new recorder is started (\<open>mediaRecorder.start()\<close>) before \<open>startAnimation\<close>.
\<close>

definition renderBody :: "Host \<Rightarrow> VideoCanvasProps \<Rightarrow> num \<Rightarrow> State \<Rightarrow> (string + nat) \<times> State" where
  "renderBody host props now s =
     (case loadImages host props s of
        (Inl message, s1) \<Rightarrow> (Inl message, s1)
      | (Inr images, s1) \<Rightarrow>
          if \<not> context2d host then (Inl ''Unable to access canvas context.'', s1)
          else
            (let c = length (captures s1);
                 s2 = s1\<lparr>captures := captures s1
                        @ [\<lparr>recorderState = Recording, tracksLive = True, resultPromise = Pending\<rparr>]\<rparr>
             in (Inr c, startAnimation now (images, c) s2)))"

text \<open>
  \<^verbatim>\<open>
  renderVideo: async () => {
    if (!canvasRef.current) throw new Error('Canvas is not ready yet.');
    if (!MEDIA_RECORDER_SUPPORT) throw new Error('MediaRecorder API is not supported in this browser.');
    try { ... return await resultPromise; }
    catch (error) {
      notifyStatus('error');
      const message = error instanceof Error ? error.message : 'Unknown error while rendering the video.';
      onError?.(message);
      throw error;
    }
  }
  \<close>
  \<open>Inl message\<close>: the promise \<open>renderVideo\<close> returns is rejected with an error of that
  message. \<open>Inr c\<close>: the call waits for the promise of capture \<open>c\<close>.
\<close>

definition renderVideo :: "Host \<Rightarrow> VideoCanvasProps \<Rightarrow> num \<Rightarrow> State \<Rightarrow> (string + nat) \<times> State" where
  "renderVideo host props now s =
     (if \<not> canvasRef s then (Inl ''Canvas is not ready yet.'', s)
      else if \<not> MEDIA_RECORDER_SUPPORT host
        then (Inl ''MediaRecorder API is not supported in this browser.'', s)
      else
        (case renderBody host props now s of
           (Inl message, s1) \<Rightarrow> (Inl message, onError message (notifyStatus Error s1))
         | (Inr c, s1) \<Rightarrow> (Inr c, s1)))"

text \<open>
  \<^verbatim>\<open>
  mediaRecorder.onerror = (event) => {
    const recorderError = event.error;
    cancelAnimation();
    stream.getTracks().forEach((track) => track.stop());
    notifyStatus('error');
    onError?.(recorderError?.message ?? 'Recording error encountered.');
    reject(recorderError ?? new Error('Recording failed.'));
  };
  \<close>
  \<open>recorderError\<close> is the message of \<open>event.error\<close>, if the event has one. When the promise
  was pending, the rejection wakes \<open>renderVideo\<close> in its \<open>catch\<close> block, which notifies again
  and rethrows.
\<close>

definition mediaRecorder_onerror :: "nat \<Rightarrow> string option \<Rightarrow> State \<Rightarrow> State" where
  "mediaRecorder_onerror c recorderError s =
     (let s1 = cancelAnimation s;
          s2 = s1\<lparr>captures := (captures s1)[c := (captures s1 ! c)\<lparr>tracksLive := False\<rparr>]\<rparr>;
          s3 = notifyStatus Error s2;
          s4 = onError (case recorderError of Some m \<Rightarrow> m | None \<Rightarrow> ''Recording error encountered.'') s3;
          reason = (case recorderError of Some m \<Rightarrow> m | None \<Rightarrow> ''Recording failed.'')
      in if resultPromise (captures s4 ! c) = Pending
         then onError reason
                (notifyStatus Error
                  (s4\<lparr>captures := (captures s4)[c := (captures s4 ! c)\<lparr>resultPromise := Rejected reason\<rparr>]\<rparr>))
         else s4)"

text \<open>
  \<^verbatim>\<open>
  mediaRecorder.onstop = () => {
    stream.getTracks().forEach((track) => track.stop());
    resolve({ blob: new Blob(chunks, { type: mimeType }), mimeType });
  };
  \<close>
\<close>

definition mediaRecorder_onstop :: "nat \<Rightarrow> State \<Rightarrow> State" where
  "mediaRecorder_onstop c s =
     s\<lparr>captures := (captures s)[c := (captures s ! c)
          \<lparr>tracksLive := False,
           resultPromise := (if resultPromise (captures s ! c) = Pending then Resolved
                             else resultPromise (captures s ! c))\<rparr>]\<rparr>"

text \<open>
  The scheduling invariant: every pending animation-frame request is the one whose handle
  \<open>animationRef\<close> holds, and that handle is positive and was given out already.
\<close>

definition scheduled :: "State \<Rightarrow> bool" where
  "scheduled s =
     ((\<forall>r \<in> set (frameRequests s). animationRef s = Some (fst r))
      \<and> (\<forall>h. animationRef s = Some h \<longrightarrow> 0 < h \<and> h < nextHandle s)
      \<and> 0 < nextHandle s)"

section \<open>The lines of wrapText as word groups\<close>

text \<open>
  The value of \<open>line\<close> after the loop has put the words \<open>ws\<close> on it: each word followed by
  a space.
\<close>

definition joinWords :: "string list \<Rightarrow> string" where
  "joinWords ws = concat (map (\<lambda>w. w @ '' '') ws)"

text \<open>
  The words the loop puts on each line: the loop of \<open>wrapText\<close> again, keeping the list of
  words of the current line where the source keeps their concatenation, and returning the
  word lists in place of the \<open>fillText\<close> calls. It is used to state what \<open>wrapText\<close> draws.
\<close>

fun wrapGroups :: "(string \<Rightarrow> num) \<Rightarrow> num \<Rightarrow> string list \<Rightarrow> nat \<Rightarrow> string list \<Rightarrow> string list list" where
  "wrapGroups m maxWidth [] n cur = [cur]"
| "wrapGroups m maxWidth (word # rest) n cur =
     (if m (joinWords cur @ word @ '' '') > maxWidth \<and> n > 0
      then cur # wrapGroups m maxWidth rest (n + 1) [word]
      else wrapGroups m maxWidth rest (n + 1) (cur @ [word]))"


section \<open>Configurations for the examples\<close>

text \<open>The props the page passes (\<open>FPS = 30\<close>, the default resolution).\<close>

definition pageProps :: VideoCanvasProps where
  "pageProps = \<lparr>scenes = SCENES, videoDuration = VIDEO_DURATION_SECONDS, fps = 30,
     resolution = DEFAULT_RESOLUTION\<rparr>"

text \<open>
  A browser that supports everything: every image loads at 1920 by 1080, and a text is
  10 pixels wide per code unit in every font.
\<close>

definition exampleHost :: Host where
  "exampleHost = \<lparr>MEDIA_RECORDER_SUPPORT = True, context2d = True,
     decode = (\<lambda>src. Some \<lparr>width = 1920, height = 1080\<rparr>),
     measureText = (\<lambda>font s. 10 * real (length s))\<rparr>"

definition images5 :: "Size list" where
  "images5 = replicate 5 \<lparr>width = 1920, height = 1080\<rparr>"

text \<open>The page's props with an empty scene list.\<close>

definition emptyProps :: VideoCanvasProps where
  "emptyProps = pageProps\<lparr>scenes := []\<rparr>"


text \<open>Two scenes of 2 and 3 seconds.\<close>

definition twoScenes :: "SceneConfig list" where
  "twoScenes =
     [\<lparr>title = ''a'', subtitle = ''b'', description = ''c'', image = ''i'', start = 0, duration = 2\<rparr>,
      \<lparr>title = ''d'', subtitle = ''e'', description = ''f'', image = ''j'', start = 2, duration = 3\<rparr>]"


section \<open>The timeline resolver\<close>

lemma sceneLoop_finds:
  assumes "\<forall>s \<in> set scs. 0 < duration s"
    and "acc \<le> t" and "t < acc + sum_list (map duration scs)"
  shows "\<exists>k < length scs.
           sceneLoop scs t i acc = (Some (i + k), acc + sum_list (map duration (take k scs)))
           \<and> acc + sum_list (map duration (take k scs)) \<le> t
           \<and> t < acc + sum_list (map duration (take k scs)) + duration (scs ! k)"
  using assms
proof (induction scs arbitrary: i acc)
  case Nil
  then show ?case by simp
next
  case (Cons scene rest)
  show ?case
  proof (cases "t < acc + duration scene")
    case True
    with Cons.prems show ?thesis by (intro exI[of _ 0]) simp
  next
    case False
    have "\<exists>k < length rest.
           sceneLoop rest t (i + 1) (acc + duration scene)
             = (Some (i + 1 + k), acc + duration scene + sum_list (map duration (take k rest)))
           \<and> acc + duration scene + sum_list (map duration (take k rest)) \<le> t
           \<and> t < acc + duration scene + sum_list (map duration (take k rest)) + duration (rest ! k)"
      using Cons.prems False by (intro Cons.IH) (simp_all add: add.assoc)
    then obtain k where k: "k < length rest"
      "sceneLoop rest t (i + 1) (acc + duration scene)
             = (Some (i + 1 + k), acc + duration scene + sum_list (map duration (take k rest)))"
      "acc + duration scene + sum_list (map duration (take k rest)) \<le> t"
      "t < acc + duration scene + sum_list (map duration (take k rest)) + duration (rest ! k)"
      by blast
    show ?thesis using k False by (intro exI[of _ "Suc k"]) (simp add: add.assoc)
  qed
qed

lemma cumulativeStart_Suc:
  "i < length scs \<Longrightarrow> cumulativeStart scs (Suc i) = cumulativeStart scs i + duration (scs ! i)"
  by (simp add: cumulativeStart_def take_Suc_conv_app_nth)

lemma cumulativeStart_mono:
  assumes "\<forall>s \<in> set scs. 0 < duration s" "i \<le> j" "j \<le> length scs"
  shows "cumulativeStart scs i \<le> cumulativeStart scs j"
  using assms(2,3)
proof (induction j)
  case 0
  then show ?case by simp
next
  case (Suc j)
  show ?case
  proof (cases "i = Suc j")
    case True
    then show ?thesis by simp
  next
    case False
    then have "cumulativeStart scs i \<le> cumulativeStart scs j" using Suc by simp
    moreover have "0 < duration (scs ! j)" using assms(1) Suc.prems by simp
    ultimately show ?thesis using Suc.prems by (simp add: cumulativeStart_Suc)
  qed
qed

lemma window_unique:
  assumes pos: "\<forall>s \<in> set scs. 0 < duration s"
    and i: "i < length scs" "cumulativeStart scs i \<le> t" "t < cumulativeStart scs i + duration (scs ! i)"
    and j: "j < length scs" "cumulativeStart scs j \<le> t" "t < cumulativeStart scs j + duration (scs ! j)"
  shows "j = i"
proof (rule ccontr)
  assume "j \<noteq> i"
  then consider "j < i" | "i < j" by linarith
  then show False
  proof cases
    case 1
    then have "cumulativeStart scs (Suc j) \<le> cumulativeStart scs i"
      using pos i(1) by (intro cumulativeStart_mono) simp_all
    then show False using i j by (simp add: cumulativeStart_Suc)
  next
    case 2
    then have "cumulativeStart scs (Suc i) \<le> cumulativeStart scs j"
      using pos j(1) by (intro cumulativeStart_mono) simp_all
    then show False using i j by (simp add: cumulativeStart_Suc)
  qed
qed

lemma resolveScene_SCENES_6: "resolveScene SCENES 6 = (1, 6)"
  by (simp add: resolveScene_def SCENES_def)

lemma resolveScene_general:
  assumes ne: "scs \<noteq> []" and pos: "\<forall>s \<in> set scs. 0 < duration s"
    and t0: "0 \<le> t" and t1: "t < sum_list (map duration scs)"
  shows "\<exists>i < length scs.
          resolveScene scs t = (int i, cumulativeStart scs i)
          \<and> cumulativeStart scs i \<le> t
          \<and> t < cumulativeStart scs i + duration (scs ! i)
          \<and> (\<forall>j < length scs.
                cumulativeStart scs j \<le> t \<and> t < cumulativeStart scs j + duration (scs ! j)
                \<longrightarrow> j = i)"
proof -
  have "\<exists>k < length scs.
           sceneLoop scs t 0 0 = (Some (0 + k), 0 + sum_list (map duration (take k scs)))
           \<and> 0 + sum_list (map duration (take k scs)) \<le> t
           \<and> t < 0 + sum_list (map duration (take k scs)) + duration (scs ! k)"
    using pos t0 t1 by (intro sceneLoop_finds) simp_all
  then obtain k where k: "k < length scs"
     "sceneLoop scs t 0 0 = (Some k, cumulativeStart scs k)"
     "cumulativeStart scs k \<le> t"
     "t < cumulativeStart scs k + duration (scs ! k)"
    unfolding cumulativeStart_def by force
  have r: "resolveScene scs t = (int k, cumulativeStart scs k)"
    using k(2) by (simp add: resolveScene_def)
  have u: "\<forall>j < length scs.
                cumulativeStart scs j \<le> t \<and> t < cumulativeStart scs j + duration (scs ! j)
                \<longrightarrow> j = k"
    using window_unique[OF pos k(1) k(3) k(4)] by blast
  show ?thesis
    using k(1) r k(3) k(4) u by blast
qed


text \<open>
  C1. For a non-empty scene list with positive durations and \<open>0 \<le> t\<close> below the sum of the
  durations, the scene-selection loop leaves \<open>sceneIndex\<close> at an index \<open>i\<close> of the list and
  \<open>accumulated\<close> at the start of scene \<open>i\<close>'s window; the window \<open>[start, start + duration)\<close>
  contains \<open>t\<close>, no other scene's window does, and the scene-local time
  \<open>elapsedSeconds - accumulated\<close> is \<open>t\<close> minus the window's start. With the page's five
  scenes of 6 seconds and \<open>t = 6\<close> the loop selects index 1 with scene-local time 0.
\<close>

theorem resolveScene_window:
  "(scs \<noteq> [] \<and> (\<forall>s \<in> set scs. 0 < duration s) \<and> 0 \<le> t \<and> t < sum_list (map duration scs)
    \<longrightarrow> (\<exists>i < length scs.
          resolveScene scs t = (int i, cumulativeStart scs i)
          \<and> cumulativeStart scs i \<le> t
          \<and> t < cumulativeStart scs i + duration (scs ! i)
          \<and> t - snd (resolveScene scs t) = t - cumulativeStart scs i
          \<and> (\<forall>j < length scs.
                cumulativeStart scs j \<le> t \<and> t < cumulativeStart scs j + duration (scs ! j)
                \<longrightarrow> j = i)))
   \<and> length SCENES = 5 \<and> (\<forall>s \<in> set SCENES. duration s = 6)
   \<and> resolveScene SCENES 6 = (1, 6) \<and> 6 - snd (resolveScene SCENES 6) = (0::real)"
proof -
  have general: "\<exists>i < length scs.
          resolveScene scs t = (int i, cumulativeStart scs i)
          \<and> cumulativeStart scs i \<le> t
          \<and> t < cumulativeStart scs i + duration (scs ! i)
          \<and> t - snd (resolveScene scs t) = t - cumulativeStart scs i
          \<and> (\<forall>j < length scs.
                cumulativeStart scs j \<le> t \<and> t < cumulativeStart scs j + duration (scs ! j)
                \<longrightarrow> j = i)"
    if "scs \<noteq> [] \<and> (\<forall>s \<in> set scs. 0 < duration s) \<and> 0 \<le> t \<and> t < sum_list (map duration scs)"
  proof -
    from that obtain i where i: "i < length scs"
      "resolveScene scs t = (int i, cumulativeStart scs i)"
      "cumulativeStart scs i \<le> t"
      "t < cumulativeStart scs i + duration (scs ! i)"
      "\<forall>j < length scs.
                cumulativeStart scs j \<le> t \<and> t < cumulativeStart scs j + duration (scs ! j)
                \<longrightarrow> j = i"
      using resolveScene_general[of scs t] by blast
    have "t - snd (resolveScene scs t) = t - cumulativeStart scs i"
      by (simp add: i(2))
    with i show ?thesis by blast
  qed
  have c1: "length SCENES = 5" by (simp add: SCENES_def)
  have c2: "\<forall>s \<in> set SCENES. duration s = 6" by (simp add: SCENES_def)
  have c3: "resolveScene SCENES 6 = (1, 6)" by (rule resolveScene_SCENES_6)
  have c4: "6 - snd (resolveScene SCENES 6) = (0::real)" by (simp add: c3)
  from general c1 c2 c3 c4 show ?thesis by blast
qed

theorem resolveScene_window_witness:
  "twoScenes \<noteq> [] \<and> 0 < duration (twoScenes ! 0) \<and> 0 < duration (twoScenes ! 1)
   \<and> length twoScenes = 2 \<and> (0::real) \<le> 5 / 2
   \<and> 5 / 2 < sum_list (map duration twoScenes)
   \<and> (\<exists>i < length twoScenes.
          resolveScene twoScenes (5 / 2) = (int i, cumulativeStart twoScenes i)
          \<and> cumulativeStart twoScenes i \<le> 5 / 2
          \<and> 5 / 2 < cumulativeStart twoScenes i + duration (twoScenes ! i))
   \<and> resolveScene twoScenes (5 / 2) = (1, 2)"
proof -
  have h: "twoScenes \<noteq> [] \<and> (\<forall>s \<in> set twoScenes. 0 < duration s) \<and> (0::real) \<le> 5 / 2
     \<and> 5 / 2 < sum_list (map duration twoScenes)"
    by (simp add: twoScenes_def)
  have e: "resolveScene twoScenes (5 / 2) = (1, 2)"
    by (simp add: twoScenes_def resolveScene_def)
  have d: "0 < duration (twoScenes ! 0) \<and> 0 < duration (twoScenes ! 1) \<and> length twoScenes = 2"
    by (simp add: twoScenes_def)
  from resolveScene_window[of twoScenes "5 / 2"] h e d show ?thesis by blast
qed

section \<open>Zoom and text opacity: properties\<close>

lemma cube_strict_mono:
  fixes a b :: real
  assumes "a < b"
  shows "a ^ 3 < b ^ 3"
proof -
  have factor: "b ^ 3 - a ^ 3 = (b - a) * ((a + b / 2)\<^sup>2 + 3 / 4 * b\<^sup>2)"
    by (simp add: power2_eq_square power3_eq_cube algebra_simps)
  have "0 < (a + b / 2)\<^sup>2 + 3 / 4 * b\<^sup>2"
  proof (cases "b = 0")
    case True
    then have "a \<noteq> 0" using assms by simp
    then show ?thesis using True by simp
  next
    case False
    then have "0 < 3 / 4 * b\<^sup>2" by simp
    moreover have "0 \<le> (a + b / 2)\<^sup>2" by simp
    ultimately show ?thesis by linarith
  qed
  then have "0 < (b - a) * ((a + b / 2)\<^sup>2 + 3 / 4 * b\<^sup>2)"
    using assms by simp
  then show ?thesis using factor by simp
qed

lemma ease_lt_half: assumes "t < 0.5" shows "easeInOutCubic t < 1/2"
proof -
  have "t ^ 3 < (1/2) ^ 3" using assms by (intro cube_strict_mono) simp
  then show ?thesis using assms by (simp add: easeInOutCubic_def power3_eq_cube)
qed

lemma ease_ge_half: assumes "0.5 \<le> t" "t \<le> 1" shows "1/2 \<le> easeInOutCubic t"
proof -
  have "0 \<le> 2 - 2 * t" "2 - 2 * t \<le> 1" using assms by simp_all
  then have "(2 - 2 * t) ^ 3 \<le> 1" by (simp add: power_le_one)
  then show ?thesis using assms by (simp add: easeInOutCubic_def)
qed

lemma ease_strict_mono:
  assumes "a < b" "b \<le> 1"
  shows "easeInOutCubic a < easeInOutCubic b"
proof (cases "b < 0.5")
  case True
  then have "a ^ 3 < b ^ 3" using assms by (intro cube_strict_mono)
  then show ?thesis using True assms by (simp add: easeInOutCubic_def power3_eq_cube)
next
  case False
  show ?thesis
  proof (cases "a < 0.5")
    case True
    have "easeInOutCubic a < 1/2" using True by (rule ease_lt_half)
    also have "1/2 \<le> easeInOutCubic b" using False assms by (intro ease_ge_half) simp_all
    finally show ?thesis .
  next
    case a: False
    have "(2 - 2 * b) ^ 3 < (2 - 2 * a) ^ 3" using assms by (intro cube_strict_mono) simp
    then show ?thesis using a False by (simp add: easeInOutCubic_def)
  qed
qed

text \<open>
  C8. The zoom is \<open>1 + 0.06 * easeInOutCubic sceneProgress\<close> with the cubic ease-in-out
  (\<open>4 t\<^sup>3\<close> below one half, \<open>1 - (-2 t + 2)\<^sup>3 / 2\<close> from there); it is 1 at progress 0, 1.06 at
  progress 1, and strictly increasing on \<open>[0, 1]\<close>.
\<close>

theorem zoom_eased:
  "zoom p = 1 + 0.06 * (if p < 0.5 then 4 * p ^ 3 else 1 - (- 2 * p + 2) ^ 3 / 2)
   \<and> zoom 0 = 1 \<and> zoom 1 = 1.06
   \<and> (\<forall>a b. 0 \<le> a \<and> a < b \<and> b \<le> 1 \<longrightarrow> zoom a < zoom b)"
  using ease_strict_mono by (simp add: zoom_def easeInOutCubic_def power3_eq_cube)

lemma fadeWindow_pos: "0 < d \<Longrightarrow> 0 < fadeWindow d"
  by (simp add: fadeWindow_def)

text \<open>
  C7. For a scene of duration \<open>d > 0\<close> with fade window \<open>w = min 0.75 (d / 3)\<close>, the text
  opacity is the minimum of the ramps \<open>clamp (e / w) 0 1\<close> and \<open>clamp ((d - e) / w) 0 1\<close>; it
  is 0 at scene-local time 0 and at scene-local time \<open>d\<close>, and it is 1 at every scene-local
  time in \<open>[w, d - w]\<close> when \<open>d\<close> exceeds \<open>2 w\<close> (which it always does).
\<close>

theorem textOpacity_ramps:
  assumes "0 < d"
  shows "fadeWindow d = min 0.75 (d / 3)
    \<and> textOpacity d e
        = min (clamp (e / min 0.75 (d / 3)) 0 1) (clamp ((d - e) / min 0.75 (d / 3)) 0 1)
    \<and> textOpacity d 0 = 0
    \<and> textOpacity d d = 0
    \<and> 2 * fadeWindow d < d
    \<and> (2 * fadeWindow d < d \<and> fadeWindow d \<le> e \<and> e \<le> d - fadeWindow d \<longrightarrow> textOpacity d e = 1)"
proof -
  have w: "0 < fadeWindow d" using assms by (rule fadeWindow_pos)
  have a: "textOpacity d e
        = min (clamp (e / min 0.75 (d / 3)) 0 1) (clamp ((d - e) / min 0.75 (d / 3)) 0 1)"
    by (simp add: textOpacity_def fadeWindow_def)
  have b: "textOpacity d 0 = 0" using w assms by (simp add: textOpacity_def clamp_def)
  have c: "textOpacity d d = 0" using w assms by (simp add: textOpacity_def clamp_def)
  have e: "2 * fadeWindow d < d" using assms by (simp add: fadeWindow_def min_def)
  have f: "textOpacity d e = 1" if "fadeWindow d \<le> e" "e \<le> d - fadeWindow d"
  proof -
    have "1 \<le> e / fadeWindow d" using w that by (simp add: pos_le_divide_eq)
    moreover have "1 \<le> (d - e) / fadeWindow d" using w that by (simp add: pos_le_divide_eq)
    ultimately show ?thesis by (simp add: textOpacity_def clamp_def)
  qed
  show ?thesis using a b c e f by (simp add: fadeWindow_def)
qed

theorem textOpacity_ramps_witness:
  "(0::real) < 6 \<and> fadeWindow 6 = 3 / 4 \<and> textOpacity 6 0 = 0 \<and> textOpacity 6 6 = 0
   \<and> 2 * fadeWindow 6 < 6 \<and> fadeWindow 6 \<le> 3 \<and> 3 \<le> 6 - fadeWindow 6 \<and> textOpacity 6 3 = 1"
  using textOpacity_ramps [of 6 3] by (simp add: fadeWindow_def)

theorem zoom_eased_witness:
  "(0::real) \<le> 1 / 4 \<and> (1 / 4 :: real) < 3 / 4 \<and> (3 / 4 :: real) \<le> 1 \<and> zoom (1 / 4) < zoom (3 / 4)"
proof -
  have "\<forall>a b. 0 \<le> a \<and> a < b \<and> b \<le> 1 \<longrightarrow> zoom a < zoom b"
    using zoom_eased [of 0] by blast
  then have "(0::real) \<le> 1 / 4 \<and> (1 / 4 :: real) < 3 / 4 \<and> (3 / 4 :: real) \<le> 1 \<longrightarrow> zoom (1 / 4) < zoom (3 / 4)"
    by blast
  then show ?thesis by simp
qed

section \<open>wrapText: properties\<close>

lemma joinWords_snoc: "joinWords (cur @ [w]) = joinWords cur @ w @ '' ''"
  by (simp add: joinWords_def)

lemma joinWords_single: "joinWords [w] = w @ '' ''"
  by (simp add: joinWords_def)

lemma wrapLoop_flush:
  "maxWidth < m (line @ w @ '' '') \<and> 0 < n \<Longrightarrow>
   wrapLoop m x maxWidth lineHeight (w # ws) n line y
     = (trim line, x, y) # wrapLoop m x maxWidth lineHeight ws (Suc n) (w @ '' '') (y + lineHeight)"
  by (simp add: Let_def)

lemma wrapLoop_keep:
  "\<not> (maxWidth < m (line @ w @ '' '') \<and> 0 < n) \<Longrightarrow>
   wrapLoop m x maxWidth lineHeight (w # ws) n line y
     = wrapLoop m x maxWidth lineHeight ws (Suc n) (line @ w @ '' '') y"
  by (auto simp: Let_def)

lemma wrapGroups_flush:
  "maxWidth < m (joinWords cur @ w @ '' '') \<and> 0 < n \<Longrightarrow>
   wrapGroups m maxWidth (w # ws) n cur = cur # wrapGroups m maxWidth ws (Suc n) [w]"
  by simp

lemma wrapGroups_keep:
  "\<not> (maxWidth < m (joinWords cur @ w @ '' '') \<and> 0 < n) \<Longrightarrow>
   wrapGroups m maxWidth (w # ws) n cur = wrapGroups m maxWidth ws (Suc n) (cur @ [w])"
  by auto

lemma wrapLoop_texts:
  "map fst (wrapLoop m x maxWidth lineHeight ws n (joinWords cur) y)
     = map (\<lambda>g. trim (joinWords g)) (wrapGroups m maxWidth ws n cur)"
proof (induction ws arbitrary: n cur y)
  case Nil
  then show ?case by simp
next
  case (Cons w ws)
  show ?case
  proof (cases "maxWidth < m (joinWords cur @ w @ '' '') \<and> 0 < n")
    case True
    show ?thesis
      unfolding wrapLoop_flush[where m=m and line="joinWords cur" and w=w, OF True] wrapGroups_flush[where m=m and cur=cur and w=w, OF True]
      using Cons.IH[of "Suc n" "[w]" "y + lineHeight"] by (simp add: joinWords_single)
  next
    case False
    show ?thesis
      unfolding wrapLoop_keep[where m=m and line="joinWords cur" and w=w, OF False] wrapGroups_keep[where m=m and cur=cur and w=w, OF False]
      using Cons.IH[of "Suc n" "cur @ [w]" y] by (simp add: joinWords_snoc)
  qed
qed

lemma positions_shift:
  "(x, y) # map (\<lambda>i. (x, y + lineHeight + real i * lineHeight)) [0..<k]
     = map (\<lambda>i. (x, y + real i * lineHeight)) [0..<Suc k]"
proof -
  have "map (\<lambda>i. (x, y + real i * lineHeight)) [0..<Suc k]
          = (x, y) # map (\<lambda>i. (x, y + real i * lineHeight)) (map Suc [0..<k])"
    by (simp add: upt_conv_Cons map_Suc_upt del: upt_Suc)
  also have "map (\<lambda>i. (x, y + real i * lineHeight)) (map Suc [0..<k])
          = map (\<lambda>i. (x, y + lineHeight + real i * lineHeight)) [0..<k]"
    by (simp add: algebra_simps)
  finally show ?thesis by simp
qed

lemma wrapLoop_positions:
  "map snd (wrapLoop m x maxWidth lineHeight ws n line y)
     = map (\<lambda>i. (x, y + real i * lineHeight)) [0..<length (wrapLoop m x maxWidth lineHeight ws n line y)]"
proof (induction ws arbitrary: n line y)
  case Nil
  then show ?case by simp
next
  case (Cons w ws)
  show ?case
  proof (cases "maxWidth < m (line @ w @ '' '') \<and> 0 < n")
    case True
    have "map snd ((trim line, x, y) # wrapLoop m x maxWidth lineHeight ws (Suc n) (w @ '' '') (y + lineHeight))
       = (x, y) # map (\<lambda>i. (x, y + lineHeight + real i * lineHeight))
            [0..<length (wrapLoop m x maxWidth lineHeight ws (Suc n) (w @ '' '') (y + lineHeight))]"
      using Cons.IH[of "Suc n" "w @ '' ''" "y + lineHeight"] by simp
    also have "\<dots> = map (\<lambda>i. (x, y + real i * lineHeight))
            [0..<Suc (length (wrapLoop m x maxWidth lineHeight ws (Suc n) (w @ '' '') (y + lineHeight)))]"
      by (rule positions_shift)
    finally show ?thesis
      unfolding wrapLoop_flush[where m=m and line=line and w=w, OF True] by simp
  next
    case False
    show ?thesis
      unfolding wrapLoop_keep[where m=m and line=line and w=w, OF False] by (rule Cons.IH)
  qed
qed

lemma wrapGroups_concat: "concat (wrapGroups m maxWidth ws n cur) = cur @ ws"
  by (induction ws arbitrary: n cur) simp_all

lemma wrapGroups_head: "\<exists>r gs. wrapGroups m maxWidth ws n cur = (cur @ r) # gs"
proof (induction ws arbitrary: n cur)
  case Nil
  then show ?case by simp
next
  case (Cons w ws)
  show ?case
  proof (cases "maxWidth < m (joinWords cur @ w @ '' '') \<and> 0 < n")
    case True
    show ?thesis unfolding wrapGroups_flush[where m=m and cur=cur and w=w, OF True] by simp
  next
    case False
    obtain r gs where "wrapGroups m maxWidth ws (Suc n) (cur @ [w]) = ((cur @ [w]) @ r) # gs"
      using Cons.IH[of "Suc n" "cur @ [w]"] by blast
    then show ?thesis unfolding wrapGroups_keep[where m=m and cur=cur and w=w, OF False] by simp
  qed
qed

lemma wrapGroups_nonempty:
  "cur \<noteq> [] \<Longrightarrow> \<forall>g \<in> set (wrapGroups m maxWidth ws n cur). g \<noteq> []"
  by (induction ws arbitrary: n cur) auto

lemma wrapGroups_fits:
  assumes "n = 0 \<longrightarrow> cur = []" and "length cur \<le> 1 \<or> m (joinWords cur) \<le> maxWidth"
  shows "\<forall>g \<in> set (wrapGroups m maxWidth ws n cur). length g \<le> 1 \<or> m (joinWords g) \<le> maxWidth"
  using assms
proof (induction ws arbitrary: n cur)
  case Nil
  then show ?case by simp
next
  case (Cons w ws)
  show ?case
  proof (cases "maxWidth < m (joinWords cur @ w @ '' '') \<and> 0 < n")
    case True
    have "\<forall>g \<in> set (wrapGroups m maxWidth ws (Suc n) [w]). length g \<le> 1 \<or> m (joinWords g) \<le> maxWidth"
      by (rule Cons.IH) simp_all
    then show ?thesis unfolding wrapGroups_flush[where m=m and cur=cur and w=w, OF True] using Cons.prems(2) by simp
  next
    case False
    have "length (cur @ [w]) \<le> 1 \<or> m (joinWords (cur @ [w])) \<le> maxWidth"
    proof (cases "n = 0")
      case True
      then show ?thesis using Cons.prems(1) by simp
    next
      case n: False
      then have "m (joinWords cur @ w @ '' '') \<le> maxWidth" using False by simp
      then show ?thesis by (simp add: joinWords_snoc)
    qed
    then have "\<forall>g \<in> set (wrapGroups m maxWidth ws (Suc n) (cur @ [w])). length g \<le> 1 \<or> m (joinWords g) \<le> maxWidth"
      by (intro Cons.IH) simp_all
    then show ?thesis unfolding wrapGroups_keep[where m=m and cur=cur and w=w, OF False] .
  qed
qed

lemma wrapGroups_greedy:
  assumes "cur \<noteq> []"
  shows "\<forall>i. Suc i < length (wrapGroups m maxWidth ws n cur) \<longrightarrow>
           m (joinWords (wrapGroups m maxWidth ws n cur ! i)
              @ hd (wrapGroups m maxWidth ws n cur ! Suc i) @ '' '') > maxWidth"
  using assms
proof (induction ws arbitrary: n cur)
  case Nil
  then show ?case by simp
next
  case (Cons w ws)
  show ?case
  proof (cases "maxWidth < m (joinWords cur @ w @ '' '') \<and> 0 < n")
    case True
    obtain r gs where h: "wrapGroups m maxWidth ws (Suc n) [w] = (w # r) # gs"
      using wrapGroups_head[of m maxWidth ws "Suc n" "[w]"] by auto
    have eq: "wrapGroups m maxWidth (w # ws) n cur = cur # (w # r) # gs"
      unfolding wrapGroups_flush[where m=m and cur=cur and w=w, OF True] h by simp
    have "\<forall>i. Suc i < length (wrapGroups m maxWidth ws (Suc n) [w]) \<longrightarrow>
           m (joinWords (wrapGroups m maxWidth ws (Suc n) [w] ! i)
              @ hd (wrapGroups m maxWidth ws (Suc n) [w] ! Suc i) @ '' '') > maxWidth"
      by (rule Cons.IH) simp
    then have ih: "\<forall>i. Suc i < length ((w # r) # gs) \<longrightarrow>
           m (joinWords (((w # r) # gs) ! i) @ hd (((w # r) # gs) ! Suc i) @ '' '') > maxWidth"
      unfolding h .
    show ?thesis
      unfolding eq
    proof (intro allI impI)
      fix i
      assume a: "Suc i < length (cur # (w # r) # gs)"
      show "m (joinWords ((cur # (w # r) # gs) ! i) @ hd ((cur # (w # r) # gs) ! Suc i) @ '' '') > maxWidth"
      proof (cases i)
        case 0
        then show ?thesis using True by simp
      next
        case (Suc k)
        then have "Suc k < length ((w # r) # gs)" using a by simp
        then have "m (joinWords (((w # r) # gs) ! k) @ hd (((w # r) # gs) ! Suc k) @ '' '') > maxWidth"
          using ih by blast
        then show ?thesis using Suc by simp
      qed
    qed
  next
    case False
    show ?thesis
      unfolding wrapGroups_keep[where m=m and cur=cur and w=w, OF False] by (rule Cons.IH) simp
  qed
qed

lemma split_space_nonempty: "split_space s \<noteq> []"
  by (induction s) (simp_all split: list.split)

lemma length_trim_le: "length (trim s) \<le> length s"
proof -
  have "length (trim s) \<le> length (dropWhile is_white s)"
    unfolding trim_def using length_dropWhile_le[of is_white "rev (dropWhile is_white s)"] by simp
  also have "\<dots> \<le> length s" by (rule length_dropWhile_le)
  finally show ?thesis .
qed

lemma wrapText_groups:
  "wrapText m text x y maxWidth lineHeight
     = wrapLoop m x maxWidth lineHeight (split_space text) 0 (joinWords []) y"
  by (simp add: wrapText_def joinWords_def)

lemma wrapGroups_initial:
  assumes "ws \<noteq> []"
  shows "(\<forall>g \<in> set (wrapGroups m maxWidth ws 0 []). g \<noteq> [])
       \<and> (\<forall>i. Suc i < length (wrapGroups m maxWidth ws 0 []) \<longrightarrow>
             maxWidth < m (joinWords (wrapGroups m maxWidth ws 0 [] ! i)
                           @ hd (wrapGroups m maxWidth ws 0 [] ! Suc i) @ '' ''))"
proof -
  obtain w rest where ws: "ws = w # rest" using assms by (cases ws) auto
  have eq: "wrapGroups m maxWidth ws 0 [] = wrapGroups m maxWidth rest (Suc 0) [w]"
    unfolding ws by simp
  show ?thesis
    unfolding eq
    using wrapGroups_nonempty[of "[w]" m maxWidth rest "Suc 0"]
          wrapGroups_greedy[of "[w]" m maxWidth rest "Suc 0"]
    by simp
qed

text \<open>
  C9. For every text, maximum width and measure function, the lines \<open>wrapText\<close> draws come
  from a grouping of the words of \<open>text.split(' ')\<close>, in order and complete (so no word is
  split, and every word is drawn, the last line included): each line is the trimmed join
  of a non-empty group of whole words, drawn at \<open>y + i * lineHeight\<close>. The grouping is
  greedy: a line of more than one word measured at most \<open>maxWidth\<close> when the loop measured it
  (with its trailing space), and the line with the next line's first word added measured
  more than \<open>maxWidth\<close>. The text drawn is the line without its trailing space; when trimming
  never increases the measured width, every drawn line measures at most \<open>maxWidth\<close> or is a
  single word.
\<close>

theorem wrapText_greedy:
  "\<exists>groups.
     concat groups = split_space text
   \<and> (\<forall>g \<in> set groups. g \<noteq> [])
   \<and> map fst (wrapText m text x y maxWidth lineHeight) = map (\<lambda>g. trim (joinWords g)) groups
   \<and> map snd (wrapText m text x y maxWidth lineHeight)
       = map (\<lambda>i. (x, y + real i * lineHeight)) [0..<length groups]
   \<and> (\<forall>g \<in> set groups. length g = 1 \<or> m (joinWords g) \<le> maxWidth)
   \<and> (\<forall>i. Suc i < length groups \<longrightarrow>
          maxWidth < m (joinWords (groups ! i) @ hd (groups ! Suc i) @ '' ''))
   \<and> ((\<forall>s. m (trim s) \<le> m s) \<longrightarrow>
        (\<forall>c \<in> set (wrapText m text x y maxWidth lineHeight).
           m (fst c) \<le> maxWidth \<or> (\<exists>w \<in> set (split_space text). fst c = trim (w @ '' ''))))"
proof -
  define groups where "groups = wrapGroups m maxWidth (split_space text) 0 []"
  have texts: "map fst (wrapText m text x y maxWidth lineHeight) = map (\<lambda>g. trim (joinWords g)) groups"
    unfolding wrapText_groups groups_def by (rule wrapLoop_texts)
  then have len: "length (wrapText m text x y maxWidth lineHeight) = length groups"
    using length_map[of fst "wrapText m text x y maxWidth lineHeight"]
          length_map[of "\<lambda>g. trim (joinWords g)" groups] by simp
  have pos: "map snd (wrapText m text x y maxWidth lineHeight)
       = map (\<lambda>i. (x, y + real i * lineHeight)) [0..<length groups]"
    unfolding len[symmetric] wrapText_def by (rule wrapLoop_positions)
  have cat: "concat groups = split_space text"
    unfolding groups_def by (simp add: wrapGroups_concat)
  have ne: "\<forall>g \<in> set groups. g \<noteq> []"
    and greedy: "\<forall>i. Suc i < length groups \<longrightarrow>
          maxWidth < m (joinWords (groups ! i) @ hd (groups ! Suc i) @ '' '')"
    unfolding groups_def using wrapGroups_initial[OF split_space_nonempty, of m maxWidth "text"]
    by blast+
  have "\<forall>g \<in> set groups. length g \<le> 1 \<or> m (joinWords g) \<le> maxWidth"
    unfolding groups_def by (rule wrapGroups_fits) simp_all
  then have fits: "\<forall>g \<in> set groups. length g = 1 \<or> m (joinWords g) \<le> maxWidth"
  proof (intro ballI)
    fix g assume g: "g \<in> set groups"
    assume "\<forall>g \<in> set groups. length g \<le> 1 \<or> m (joinWords g) \<le> maxWidth"
    then have "length g \<le> 1 \<or> m (joinWords g) \<le> maxWidth" using g by blast
    moreover have "length g \<noteq> 0" using ne g by simp
    ultimately show "length g = 1 \<or> m (joinWords g) \<le> maxWidth" by linarith
  qed
  have drawn: "\<forall>c \<in> set (wrapText m text x y maxWidth lineHeight).
           m (fst c) \<le> maxWidth \<or> (\<exists>w \<in> set (split_space text). fst c = trim (w @ '' ''))"
    if mono: "\<forall>s. m (trim s) \<le> m s"
  proof
    fix c assume "c \<in> set (wrapText m text x y maxWidth lineHeight)"
    then have "fst c \<in> set (map fst (wrapText m text x y maxWidth lineHeight))" by simp
    then obtain g where g: "g \<in> set groups" "fst c = trim (joinWords g)"
      unfolding texts by auto
    show "m (fst c) \<le> maxWidth \<or> (\<exists>w \<in> set (split_space text). fst c = trim (w @ '' ''))"
    proof (cases "length g = 1")
      case True
      then obtain w where w: "g = [w]" by (cases g) auto
      have "[w] \<in> set groups" using g(1) w by simp
      then have "\<exists>ws \<in> set groups. w \<in> set ws" by (intro bexI[of _ "[w]"]) simp_all
      then have "w \<in> set (concat groups)" by simp
      then have "w \<in> set (split_space text)" using cat by simp
      then show ?thesis using g(2) w by (auto simp: joinWords_single)
    next
      case False
      then have "m (joinWords g) \<le> maxWidth" using fits g(1) by blast
      moreover have "m (trim (joinWords g)) \<le> m (joinWords g)" using mono by blast
      ultimately show ?thesis using g(2) by simp
    qed
  qed
  show ?thesis
    using cat ne texts pos fits greedy drawn by blast
qed

lemma wrapText_example:
  "wrapText (\<lambda>s. real (length s)) ''aa bb c'' 0 0 6 10 = [(''aa bb'', 0, 0), (''c'', 0, 10)]"
  by (simp add: wrapText_def trim_def is_white_def)

theorem wrapText_greedy_witness:
  "wrapText (\<lambda>s. real (length s)) ''aa bb c'' 0 0 6 10 = [(''aa bb'', 0, 0), (''c'', 0, 10)]
   \<and> split_space ''aa bb c'' = [''aa'', ''bb'', ''c'']
   \<and> (\<exists>groups. concat groups = split_space ''aa bb c''
         \<and> map fst (wrapText (\<lambda>s. real (length s)) ''aa bb c'' 0 0 6 10)
             = map (\<lambda>g. trim (joinWords g)) groups
         \<and> (\<forall>g \<in> set groups. g \<noteq> [] \<and> (length g = 1 \<or> real (length (joinWords g)) \<le> 6)))
   \<and> list_all (\<lambda>c. real (length (fst c)) \<le> 6
                    \<or> (\<exists>w \<in> set (split_space ''aa bb c''). fst c = trim (w @ '' '')))
        (wrapText (\<lambda>s. real (length s)) ''aa bb c'' 0 0 6 10)"
proof -
  have mono: "\<forall>s. real (length (trim s)) \<le> real (length s)"
    by (simp add: length_trim_le)
  have ex: "wrapText (\<lambda>s. real (length s)) ''aa bb c'' 0 0 6 10 = [(''aa bb'', 0, 0), (''c'', 0, 10)]"
    by (rule wrapText_example)
  have sp: "split_space ''aa bb c'' = [''aa'', ''bb'', ''c'']" by simp
  from wrapText_greedy[of "''aa bb c''" "\<lambda>s. real (length s)" 0 0 6 10] mono
  have "(\<exists>groups. concat groups = split_space ''aa bb c''
         \<and> map fst (wrapText (\<lambda>s. real (length s)) ''aa bb c'' 0 0 6 10)
             = map (\<lambda>g. trim (joinWords g)) groups
         \<and> (\<forall>g \<in> set groups. g \<noteq> [] \<and> (length g = 1 \<or> real (length (joinWords g)) \<le> 6)))
      \<and> (\<forall>c \<in> set (wrapText (\<lambda>s. real (length s)) ''aa bb c'' 0 0 6 10).
           real (length (fst c)) \<le> 6 \<or> (\<exists>w \<in> set (split_space ''aa bb c''). fst c = trim (w @ '' '')))"
    by blast
  then show ?thesis using ex sp by (simp only: list_all_iff) blast
qed

section \<open>Completion and the seconds readout\<close>

lemma composeFrame_readout:
  "composeFrame m props images elapsedMs progress = Inr f \<Longrightarrow> readout f = Math_round (progress * 30)"
  by (auto simp: composeFrame_def Let_def split: option.splits prod.splits)

lemma drawFrame_Drew:
  assumes "drawFrame m props images elapsedMs = (p, Drew f)"
  shows "p = clamp (elapsedMs / (videoDuration props * 1000)) 0 1"
    and "elapsedMs < videoDuration props * 1000"
    and "readout f = Math_round (p * 30)"
proof -
  show p: "p = clamp (elapsedMs / (videoDuration props * 1000)) 0 1"
    using assms by (simp add: drawFrame_def Let_def)
  show lt: "elapsedMs < videoDuration props * 1000"
    using assms by (simp add: drawFrame_def Let_def split: if_splits)
  have "composeFrame m props images elapsedMs p = Inr f"
    using assms lt p by (simp add: drawFrame_def Let_def split: sum.splits)
  then show "readout f = Math_round (p * 30)" by (rule composeFrame_readout)
qed

lemma drawFrame_Completed_iff:
  "snd (drawFrame m props images elapsedMs) = Completed \<longleftrightarrow> videoDuration props * 1000 \<le> elapsedMs"
  by (simp add: drawFrame_def Let_def split: sum.splits)

lemma readout_seconds_30:
  assumes "videoDuration props = 30" "0 \<le> elapsedMs" "drawFrame m props images elapsedMs = (p, Drew f)"
  shows "readout f = Math_round (elapsedMs / 1000)"
proof -
  have lt: "elapsedMs < 30000" using drawFrame_Drew(2)[OF assms(3)] assms(1) by simp
  have "p = clamp (elapsedMs / 30000) 0 1" using drawFrame_Drew(1)[OF assms(3)] assms(1) by simp
  then have "p = elapsedMs / 30000" using lt assms(2) by (simp add: clamp_def)
  then have e: "p * 30 = elapsedMs / 1000" by simp
  have r: "readout f = Math_round (p * 30)" by (rule drawFrame_Drew(3)[OF assms(3)])
  show ?thesis unfolding r e by (rule refl)
qed

lemma readout_differs_long:
  assumes "30 < d"
  shows "Math_round (clamp (500 / (d * 1000)) 0 1 * 30) = 0" and "Math_round (500 / 1000) = 1"
proof -
  have "500 / (d * 1000) = 1 / (2 * d)" using assms by (simp add: field_simps)
  moreover have "0 < 1 / (2 * d)" "1 / (2 * d) < 1" using assms by simp_all
  ultimately have c: "clamp (500 / (d * 1000)) 0 1 * 30 = 15 / d" by (simp add: clamp_def)
  have "0 \<le> 15 / d + 1 / 2" "15 / d + 1 / 2 < 1" using assms by (simp_all add: field_simps)
  then have fl: "\<lfloor>15 / d + 1 / 2\<rfloor> = 0" by (simp add: floor_eq_iff)
  show "Math_round (clamp (500 / (d * 1000)) 0 1 * 30) = 0"
    unfolding Math_round_def c by (rule fl)
  show "Math_round (500 / 1000) = 1" by (simp add: Math_round_def)
qed

lemma readout_differs_short:
  assumes "0 < d" "d < 30"
  shows "Math_round (clamp ((50 * d / 3) / (d * 1000)) 0 1 * 30) = 1"
    and "Math_round ((50 * d / 3) / 1000) = 0"
proof -
  have "(50 * d / 3) / (d * 1000) = 1 / 60" using assms by (simp add: field_simps)
  then have c: "clamp ((50 * d / 3) / (d * 1000)) 0 1 * 30 = 1 / 2" by (simp add: clamp_def)
  show "Math_round (clamp ((50 * d / 3) / (d * 1000)) 0 1 * 30) = 1"
    unfolding Math_round_def c by simp
  have "0 \<le> (50 * d / 3) / 1000 + 1 / 2" "(50 * d / 3) / 1000 + 1 / 2 < 1" using assms by simp_all
  then have "\<lfloor>(50 * d / 3) / 1000 + 1 / 2\<rfloor> = 0" by (simp add: floor_eq_iff)
  then show "Math_round ((50 * d / 3) / 1000) = 0" by (simp add: Math_round_def)
qed

lemma readout_differs:
  assumes "0 < videoDuration props" "videoDuration props \<noteq> 30"
  shows "\<exists>e. 0 \<le> e \<and> e < videoDuration props * 1000
           \<and> (\<forall>m images p f. drawFrame m props images e = (p, Drew f)
                 \<longrightarrow> readout f \<noteq> Math_round (e / 1000))"
proof (cases "30 < videoDuration props")
  case True
  have "\<forall>m images p f. drawFrame m props images 500 = (p, Drew f)
                 \<longrightarrow> readout f \<noteq> Math_round (500 / 1000)"
  proof (intro allI impI)
    fix m images p f
    assume a: "drawFrame m props images 500 = (p, Drew f)"
    have "readout f = Math_round (clamp (500 / (videoDuration props * 1000)) 0 1 * 30)"
      using drawFrame_Drew(1)[OF a] drawFrame_Drew(3)[OF a] by simp
    then show "readout f \<noteq> Math_round (500 / 1000)"
      using readout_differs_long[OF True] by simp
  qed
  moreover have "(0::real) \<le> 500" "500 < videoDuration props * 1000" using True by simp_all
  ultimately show ?thesis by blast
next
  case False
  then have lt: "videoDuration props < 30" using assms(2) by simp
  define e where "e = 50 * videoDuration props / 3"
  have "\<forall>m images p f. drawFrame m props images e = (p, Drew f)
                 \<longrightarrow> readout f \<noteq> Math_round (e / 1000)"
  proof (intro allI impI)
    fix m images p f
    assume a: "drawFrame m props images e = (p, Drew f)"
    have "readout f = Math_round (clamp (e / (videoDuration props * 1000)) 0 1 * 30)"
      using drawFrame_Drew(1)[OF a] drawFrame_Drew(3)[OF a] by simp
    then show "readout f \<noteq> Math_round (e / 1000)"
      using readout_differs_short[OF assms(1) lt] unfolding e_def by simp
  qed
  moreover have "0 \<le> e" "e < videoDuration props * 1000" using assms(1) unfolding e_def by simp_all
  ultimately show ?thesis by blast
qed

text \<open>
  C10. On every frame \<open>drawFrame\<close> draws, the number in the readout is
  \<open>Math.round(progress * 30)\<close>, with \<open>progress\<close> the clamped quotient of the elapsed time by
  the configured total and 30 a literal. When the configured total is 30 seconds it is
  the elapsed time in seconds, rounded; for every other positive total there is an
  instant before the end at which a drawn frame's readout differs from the rounded
  elapsed seconds.
\<close>

theorem readout_literal_30:
  "(drawFrame m props images elapsedMs = (p, Drew f)
      \<longrightarrow> p = clamp (elapsedMs / (videoDuration props * 1000)) 0 1 \<and> readout f = Math_round (p * 30))
   \<and> (videoDuration props = 30 \<and> 0 \<le> elapsedMs \<and> drawFrame m props images elapsedMs = (p, Drew f)
      \<longrightarrow> readout f = Math_round (elapsedMs / 1000))
   \<and> (0 < videoDuration props \<and> videoDuration props \<noteq> 30
      \<longrightarrow> (\<exists>e. 0 \<le> e \<and> e < videoDuration props * 1000
             \<and> (\<forall>m' images' p' f'. drawFrame m' props images' e = (p', Drew f')
                   \<longrightarrow> readout f' \<noteq> Math_round (e / 1000))))"
  using drawFrame_Drew(1,3)[of m props images elapsedMs p f]
        readout_seconds_30[of props elapsedMs m images p f]
        readout_differs[of props]
  by blast

text \<open>
  C2, as the code has it. \<open>drawFrame\<close> calls \<open>options.onComplete\<close> and returns, before it
  resolves or draws a scene, exactly when the elapsed time has reached the configured
  total \<open>duration * 1000\<close> milliseconds; the sum of the scene durations is not consulted.
  When the configured total equals that sum, as on the page (five scenes of 6 seconds,
  total 30), every elapsed time from the sum on reports completion, 30.0 s included.
\<close>

theorem drawFrame_completion:
  "(videoDuration props * 1000 \<le> elapsedMs \<longrightarrow> snd (drawFrame m props images elapsedMs) = Completed)
   \<and> (elapsedMs < videoDuration props * 1000 \<longrightarrow> snd (drawFrame m props images elapsedMs) \<noteq> Completed)
   \<and> (videoDuration props = sum_list (map duration (scenes props))
        \<and> sum_list (map duration (scenes props)) \<le> elapsedMs / 1000
      \<longrightarrow> snd (drawFrame m props images elapsedMs) = Completed)
   \<and> length (scenes pageProps) = 5
   \<and> map duration (scenes pageProps) = [6, 6, 6, 6, 6]
   \<and> videoDuration pageProps = sum_list (map duration (scenes pageProps))
   \<and> snd (drawFrame m pageProps images 30000) = Completed"
proof -
  have a: "videoDuration props * 1000 \<le> elapsedMs \<longrightarrow> snd (drawFrame m props images elapsedMs) = Completed"
    by (simp add: drawFrame_Completed_iff)
  have b: "elapsedMs < videoDuration props * 1000 \<longrightarrow> snd (drawFrame m props images elapsedMs) \<noteq> Completed"
    by (simp add: drawFrame_Completed_iff)
  have c: "videoDuration props = sum_list (map duration (scenes props))
        \<and> sum_list (map duration (scenes props)) \<le> elapsedMs / 1000
      \<longrightarrow> snd (drawFrame m props images elapsedMs) = Completed"
    by (auto simp: drawFrame_Completed_iff)
  have d: "map duration (scenes pageProps) = [6, 6, 6, 6, 6]"
    by (simp add: pageProps_def SCENES_def)
  have e: "videoDuration pageProps = sum_list (map duration (scenes pageProps))"
    unfolding d by (simp add: pageProps_def VIDEO_DURATION_SECONDS_def)
  have f: "snd (drawFrame m pageProps images 30000) = Completed"
    by (simp add: drawFrame_Completed_iff pageProps_def VIDEO_DURATION_SECONDS_def)
  have g: "length (scenes pageProps) = 5" by (simp add: pageProps_def SCENES_def)
  from a b c d e f g show ?thesis by blast
qed

theorem drawFrame_completion_witness:
  "videoDuration pageProps * 1000 \<le> 31000
   \<and> snd (drawFrame (measureText exampleHost) pageProps images5 31000) = Completed
   \<and> 29999 < videoDuration pageProps * 1000
   \<and> snd (drawFrame (measureText exampleHost) pageProps images5 29999) \<noteq> Completed
   \<and> videoDuration pageProps = sum_list (map duration (scenes pageProps))
   \<and> sum_list (map duration (scenes pageProps)) \<le> 31000 / 1000"
proof -
  have h: "videoDuration pageProps * 1000 \<le> 31000" "29999 < videoDuration pageProps * 1000"
    by (simp_all add: pageProps_def VIDEO_DURATION_SECONDS_def)
  have s: "sum_list (map duration (scenes pageProps)) \<le> 31000 / 1000"
    by (simp add: pageProps_def SCENES_def)
  from drawFrame_completion[of pageProps 31000 "measureText exampleHost" images5]
       drawFrame_completion[of pageProps 29999 "measureText exampleHost" images5] h s
  show ?thesis by blast
qed

theorem drawFrame_completion_counterexample:
  "sum_list (map duration (scenes (pageProps\<lparr>videoDuration := 40\<rparr>))) \<le> 35000 / 1000
   \<and> snd (drawFrame (measureText exampleHost) (pageProps\<lparr>videoDuration := 40\<rparr>) images5 35000) \<noteq> Completed
   \<and> (case snd (drawFrame (measureText exampleHost) (pageProps\<lparr>videoDuration := 40\<rparr>) images5 35000) of
        Drew frame \<Rightarrow> sceneIndex frame = 4 \<and> sceneElapsed frame = 5
      | _ \<Rightarrow> False)"
  by (simp add: drawFrame_def composeFrame_def resolveScene_def element_def pageProps_def SCENES_def
      images5_def DEFAULT_RESOLUTION_def Let_def numeral_eq_Suc)

theorem readout_literal_30_witness:
  "videoDuration pageProps = 30 \<and> (0::real) \<le> 6000
   \<and> (\<exists>p f. drawFrame (measureText exampleHost) pageProps images5 6000 = (p, Drew f)
         \<and> p = 1 / 5 \<and> readout f = Math_round (p * 30)
         \<and> readout f = Math_round (6000 / 1000) \<and> readout f = 6)
   \<and> 0 < videoDuration (pageProps\<lparr>videoDuration := 40\<rparr>)
   \<and> videoDuration (pageProps\<lparr>videoDuration := 40\<rparr>) \<noteq> 30
   \<and> (\<exists>e. 0 \<le> e \<and> e < videoDuration (pageProps\<lparr>videoDuration := 40\<rparr>) * 1000
         \<and> (\<forall>m images p f. drawFrame m (pageProps\<lparr>videoDuration := 40\<rparr>) images e = (p, Drew f)
               \<longrightarrow> readout f \<noteq> Math_round (e / 1000)))
   \<and> (\<exists>p f. drawFrame (measureText exampleHost) (pageProps\<lparr>videoDuration := 40\<rparr>) images5 500
               = (p, Drew f)
         \<and> readout f = 0 \<and> Math_round (500 / 1000) = 1)"
proof -
  have d30: "videoDuration pageProps = 30"
    by (simp add: pageProps_def VIDEO_DURATION_SECONDS_def)
  have "\<exists>p f. drawFrame (measureText exampleHost) pageProps images5 6000 = (p, Drew f)"
    by (simp add: drawFrame_def composeFrame_def resolveScene_def element_def pageProps_def
        SCENES_def images5_def VIDEO_DURATION_SECONDS_def Let_def numeral_eq_Suc)
  then obtain p f where pf: "drawFrame (measureText exampleHost) pageProps images5 6000 = (p, Drew f)"
    by blast
  have z: "(0::real) \<le> 6000" by simp
  have p: "p = clamp (6000 / (videoDuration pageProps * 1000)) 0 1 \<and> readout f = Math_round (p * 30)"
    using readout_literal_30[of "measureText exampleHost" pageProps images5 6000 p f] pf by blast
  have r: "readout f = Math_round (6000 / 1000)"
    using readout_literal_30[of "measureText exampleHost" pageProps images5 6000 p f] pf d30 z by blast
  have p5: "p = 1 / 5" using p d30 by (simp add: clamp_def)
  have r6: "readout f = 6" using r by (simp add: Math_round_def)
  have a: "\<exists>p f. drawFrame (measureText exampleHost) pageProps images5 6000 = (p, Drew f)
         \<and> p = 1 / 5 \<and> readout f = Math_round (p * 30)
         \<and> readout f = Math_round (6000 / 1000) \<and> readout f = 6"
    using pf p5 p r r6 by blast
  have d40: "0 < videoDuration (pageProps\<lparr>videoDuration := 40\<rparr>)"
    "videoDuration (pageProps\<lparr>videoDuration := 40\<rparr>) \<noteq> 30"
    by simp_all
  have b: "\<exists>e. 0 \<le> e \<and> e < videoDuration (pageProps\<lparr>videoDuration := 40\<rparr>) * 1000
         \<and> (\<forall>m images p f. drawFrame m (pageProps\<lparr>videoDuration := 40\<rparr>) images e = (p, Drew f)
               \<longrightarrow> readout f \<noteq> Math_round (e / 1000))"
    using readout_literal_30[where props = "pageProps\<lparr>videoDuration := 40\<rparr>"] d40 by blast
  have "\<exists>p f. drawFrame (measureText exampleHost) (pageProps\<lparr>videoDuration := 40\<rparr>) images5 500
               = (p, Drew f)"
    by (simp add: drawFrame_def composeFrame_def resolveScene_def element_def pageProps_def
        SCENES_def images5_def Let_def numeral_eq_Suc)
  then obtain p' f' where pf': "drawFrame (measureText exampleHost) (pageProps\<lparr>videoDuration := 40\<rparr>) images5 500
               = (p', Drew f')"
    by blast
  have "p' = clamp (500 / (videoDuration (pageProps\<lparr>videoDuration := 40\<rparr>) * 1000)) 0 1
      \<and> readout f' = Math_round (p' * 30)"
    using readout_literal_30[of "measureText exampleHost" "pageProps\<lparr>videoDuration := 40\<rparr>" images5 500 p' f'] pf'
    by blast
  then have pe: "p' = 1 / 80" and re: "readout f' = Math_round (p' * 30)"
    by (simp_all add: clamp_def)
  have "readout f' = 0" unfolding re pe by (simp add: Math_round_def)
  moreover have "Math_round (500 / 1000) = 1" by (simp add: Math_round_def)
  ultimately have c: "\<exists>p f. drawFrame (measureText exampleHost) (pageProps\<lparr>videoDuration := 40\<rparr>) images5 500
               = (p, Drew f)
         \<and> readout f = 0 \<and> Math_round (500 / 1000) = 1"
    using pf' by blast
  show ?thesis using d30 a d40 b c by simp
qed

section \<open>The scheduler\<close>

lemma loaders_SCENES: "loaders (decode exampleHost) SCENES = Inr images5"
  by (simp add: SCENES_def exampleHost_def images5_def numeral_eq_Suc)

lemma first_render:
  "renderVideo exampleHost pageProps 0 mounted =
     (Inr 0, mounted\<lparr>imageCacheRef := Some images5, startTimeRef := 0, nextHandle := 2,
        animationRef := Some 1, frameRequests := [(1, (images5, 0))],
        captures := [\<lparr>recorderState = Recording, tracksLive = True, resultPromise = Pending\<rparr>],
        statusLog := [LoadingAssets, Rendering], progressLog := [0]\<rparr>)"
  using loaders_SCENES
  by (simp add: renderVideo_def renderBody_def loadImages_def startAnimation_def requestTick_def
      requestAnimationFrame_def cancelAnimation_def cancelAnimationFrame_def notifyStatus_def
      notifyProgress_def onError_def mounted_def pageProps_def)
     (simp add: exampleHost_def)

lemma drawFrame_pageProps_done:
  "30000 \<le> e \<Longrightarrow> drawFrame m pageProps images e = (1, Completed)"
  by (simp add: drawFrame_def pageProps_def VIDEO_DURATION_SECONDS_def clamp_def Let_def)

lemma second_frame:
  "animationFrame exampleHost pageProps 30000 1
     (mounted\<lparr>imageCacheRef := Some images5, startTimeRef := 0, nextHandle := 2,
        animationRef := Some 1, frameRequests := [(1, (images5, 0))],
        captures := [\<lparr>recorderState = Recording, tracksLive = True, resultPromise = Pending\<rparr>],
        statusLog := [LoadingAssets, Rendering], progressLog := [0]\<rparr>)
   = (mounted\<lparr>imageCacheRef := Some images5, startTimeRef := 0, nextHandle := 3,
        animationRef := Some 2, frameRequests := [(2, (images5, 0))],
        captures := [\<lparr>recorderState = Inactive, tracksLive = True, resultPromise = Pending\<rparr>],
        statusLog := [LoadingAssets, Rendering, Complete], progressLog := [0, 1, 1]\<rparr>)"
  by (simp add: animationFrame_def tick_def mounted_def drawFrame_pageProps_done
      stopRecorder_def requestTick_def requestAnimationFrame_def cancelAnimation_def
      cancelAnimationFrame_def notifyStatus_def notifyProgress_def)

lemma third_frame:
  "animationFrame exampleHost pageProps 30016 2
     (mounted\<lparr>imageCacheRef := Some images5, startTimeRef := 0, nextHandle := 3,
        animationRef := Some 2, frameRequests := [(2, (images5, 0))],
        captures := [\<lparr>recorderState = Inactive, tracksLive = True, resultPromise = Pending\<rparr>],
        statusLog := [LoadingAssets, Rendering, Complete], progressLog := [0, 1, 1]\<rparr>)
   = (mounted\<lparr>imageCacheRef := Some images5, startTimeRef := 0, nextHandle := 4,
        animationRef := Some 3, frameRequests := [(3, (images5, 0))],
        captures := [\<lparr>recorderState = Inactive, tracksLive = True, resultPromise = Pending\<rparr>],
        statusLog := [LoadingAssets, Rendering, Complete, Complete], progressLog := [0, 1, 1, 1, 1]\<rparr>)"
  by (simp add: animationFrame_def tick_def mounted_def drawFrame_pageProps_done
      stopRecorder_def requestTick_def requestAnimationFrame_def cancelAnimation_def
      cancelAnimationFrame_def notifyStatus_def notifyProgress_def)

text \<open>
  C3, evaluated. A render starts at time 0 with the page's props; the browser runs the
  pending callback at 30000 ms. \<open>tick\<close> notifies progress 1 and status \<open>complete\<close> and stops
  the recorder, and then requests the next animation frame: handle 2 is pending and is
  stored in \<open>animationRef\<close>. Run at 30016 ms, that callback notifies \<open>complete\<close> and progress 1
  once more and requests handle 3.
\<close>

theorem tick_requests_after_completion:
  "(let s1 = snd (renderVideo exampleHost pageProps 0 mounted);
        s2 = animationFrame exampleHost pageProps 30000 1 s1;
        s3 = animationFrame exampleHost pageProps 30016 2 s2
    in map fst (frameRequests s1) = [1]
     \<and> statusLog s2 = [LoadingAssets, Rendering, Complete]
     \<and> progressLog s2 = [0, 1, 1]
     \<and> map recorderState (captures s2) = [Inactive]
     \<and> animationRef s2 = Some 2
     \<and> map fst (frameRequests s2) = [2]
     \<and> drawn s2 = []
     \<and> statusLog s3 = [LoadingAssets, Rendering, Complete, Complete]
     \<and> progressLog s3 = [0, 1, 1, 1, 1]
     \<and> animationRef s3 = Some 3
     \<and> map fst (frameRequests s3) = [3])"
  unfolding Let_def first_render snd_conv second_frame third_frame
  by (simp add: mounted_def)

lemma tick_completed_requests_again:
  assumes "canvasRef s" "videoDuration props * 1000 \<le> now - startTimeRef s"
  shows "animationRef (tick host props now callback s) = Some (nextHandle s)"
    and "(nextHandle s, callback) \<in> set (frameRequests (tick host props now callback s))"
    and "drawn (tick host props now callback s) = drawn s"
  using assms
  by (auto simp: tick_def drawFrame_def Let_def requestTick_def requestAnimationFrame_def
      cancelAnimation_def cancelAnimationFrame_def notifyStatus_def notifyProgress_def
      stopRecorder_def split: option.splits)

text \<open>
  The invariant holds when the component is mounted and every operation keeps it. In a
  state that satisfies it, \<open>cancelAnimation\<close> leaves no request pending, so no callback
  runs after it.
\<close>

lemma scheduled_mounted: "scheduled mounted"
  by (simp add: scheduled_def mounted_def)

lemma filter_requests_empty:
  "\<forall>r \<in> set rs. h = fst r \<Longrightarrow> filter (\<lambda>r. fst r \<noteq> h) rs = []"
  by (induction rs) auto

lemma scheduled_cancelAnimation:
  assumes "scheduled s"
  shows "scheduled (cancelAnimation s)" and "frameRequests (cancelAnimation s) = []"
proof -
  show r: "frameRequests (cancelAnimation s) = []"
  proof (cases "animationRef s")
    case None
    then have "frameRequests s = []" using assms by (cases "frameRequests s") (auto simp: scheduled_def)
    then show ?thesis using None by (simp add: cancelAnimation_def)
  next
    case (Some h)
    then have "0 < h" "\<forall>r \<in> set (frameRequests s). h = fst r"
      using assms by (auto simp: scheduled_def)
    then show ?thesis using Some
      by (simp add: cancelAnimation_def cancelAnimationFrame_def filter_requests_empty)
  qed
  have "nextHandle (cancelAnimation s) = nextHandle s"
    by (simp add: cancelAnimation_def cancelAnimationFrame_def split: option.splits)
  moreover have "animationRef (cancelAnimation s) = None"
    using assms by (auto simp: cancelAnimation_def cancelAnimationFrame_def scheduled_def split: option.splits)
  ultimately show "scheduled (cancelAnimation s)"
    using assms r by (simp add: scheduled_def)
qed

lemma scheduled_requestTick:
  assumes "frameRequests s = []" "0 < nextHandle s"
  shows "scheduled (requestTick callback s)"
  using assms by (simp add: scheduled_def requestTick_def requestAnimationFrame_def)

lemma scheduled_startAnimation:
  assumes "scheduled s"
  shows "scheduled (startAnimation now callback s)"
proof -
  have "frameRequests (cancelAnimation s) = []" "0 < nextHandle (cancelAnimation s)"
    using scheduled_cancelAnimation[OF assms] by (simp_all add: scheduled_def)
  then show ?thesis
    unfolding startAnimation_def
    by (intro scheduled_requestTick) (simp_all add: notifyStatus_def notifyProgress_def)
qed

lemma scheduled_frame_independent:
  assumes "scheduled s" "frameRequests s' = frameRequests s" "animationRef s' = animationRef s"
    "nextHandle s' = nextHandle s"
  shows "scheduled s'"
  using assms by (simp add: scheduled_def)

lemma scheduled_renderVideo:
  assumes "scheduled s"
  shows "scheduled (snd (renderVideo host props now s))"
proof -
  have l: "scheduled (snd (loadImages host props s))"
    by (rule scheduled_frame_independent[OF assms])
       (auto simp: loadImages_def Let_def notifyStatus_def split: option.splits sum.splits)
  show ?thesis
  proof (cases "renderBody host props now s")
    case (Pair res s1)
    show ?thesis
    proof (cases res)
      case (Inl message)
      have "frameRequests s1 = frameRequests s \<and> animationRef s1 = animationRef s \<and> nextHandle s1 = nextHandle s"
        using Pair Inl
        by (auto simp: renderBody_def loadImages_def Let_def notifyStatus_def
            split: option.splits sum.splits prod.splits if_splits)
      then have "scheduled (onError message (notifyStatus Error s1))"
        using assms by (simp add: scheduled_def onError_def notifyStatus_def)
      then show ?thesis using Pair Inl assms by (simp add: renderVideo_def)
    next
      case (Inr c)
      then obtain images s0 where s0: "loadImages host props s = (Inr images, s0)"
        "s1 = startAnimation now (images, length (captures s0))
                (s0\<lparr>captures := captures s0
                   @ [\<lparr>recorderState = Recording, tracksLive = True, resultPromise = Pending\<rparr>]\<rparr>)"
        using Pair
        by (auto simp: renderBody_def Let_def split: prod.splits sum.splits if_splits)
      have "scheduled s0" using l s0(1) by simp
      then have "scheduled (s0\<lparr>captures := captures s0
                   @ [\<lparr>recorderState = Recording, tracksLive = True, resultPromise = Pending\<rparr>]\<rparr>)"
        by (simp add: scheduled_def)
      then have "scheduled s1" unfolding s0(2) by (rule scheduled_startAnimation)
      then show ?thesis using Pair Inr assms by (simp add: renderVideo_def)
    qed
  qed
qed

lemma tick_unfold:
  assumes "canvasRef s"
    and "drawFrame (measureText host) props (fst callback) (now - startTimeRef s) = (progress, out)"
  shows "tick host props now callback s =
     (case out of
        Threw e \<Rightarrow> (notifyProgress progress s)\<lparr>uncaught := uncaught (notifyProgress progress s) @ [e]\<rparr>
      | Drew frame \<Rightarrow> requestTick callback ((notifyProgress progress s)\<lparr>drawn := drawn (notifyProgress progress s) @ [frame]\<rparr>)
      | Completed \<Rightarrow>
          requestTick callback
            (notifyProgress 1
              (notifyStatus Complete
                (cancelAnimation
                  (stopRecorder (snd callback) (notifyProgress progress s))))))"
  unfolding tick_def Let_def using assms by simp

lemma notify_fields:
  "frameRequests (notifyProgress v s) = frameRequests s"
  "nextHandle (notifyProgress v s) = nextHandle s"
  "animationRef (notifyProgress v s) = animationRef s"
  "frameRequests (notifyStatus status s) = frameRequests s"
  "nextHandle (notifyStatus status s) = nextHandle s"
  "animationRef (notifyStatus status s) = animationRef s"
  by (simp_all add: notifyProgress_def notifyStatus_def)

lemma scheduled_tick:
  assumes "scheduled s" "frameRequests s = []"
  shows "scheduled (tick host props now callback s)"
proof (cases "canvasRef s")
  case False
  then show ?thesis using assms by (simp add: tick_def)
next
  case True
  obtain progress out where d: "drawFrame (measureText host) props (fst callback) (now - startTimeRef s) = (progress, out)"
    by (cases "drawFrame (measureText host) props (fst callback) (now - startTimeRef s)")
  have n: "0 < nextHandle s" using assms(1) by (simp add: scheduled_def)
  show ?thesis
  proof (cases out)
    case Completed
    have "scheduled (stopRecorder (snd callback) (notifyProgress progress s))"
      by (rule scheduled_frame_independent[OF assms(1)])
         (simp_all add: stopRecorder_def notifyProgress_def)
    then have c: "scheduled (cancelAnimation (stopRecorder (snd callback) (notifyProgress progress s)))"
      and e: "frameRequests (cancelAnimation (stopRecorder (snd callback) (notifyProgress progress s))) = []"
      by (rule scheduled_cancelAnimation)+
    have p: "0 < nextHandle (cancelAnimation (stopRecorder (snd callback) (notifyProgress progress s)))"
      using c unfolding scheduled_def by blast
    have "scheduled (requestTick callback
                  (notifyProgress 1
                    (notifyStatus Complete
                      (cancelAnimation
                        (stopRecorder (snd callback) (notifyProgress progress s))))))"
      by (rule scheduled_requestTick) (simp_all add: notify_fields e p)
    then show ?thesis unfolding tick_unfold[OF True d] Completed by simp
  next
    case (Drew frame)
    have "scheduled (requestTick callback ((notifyProgress progress s)\<lparr>drawn := drawn (notifyProgress progress s) @ [frame]\<rparr>))"
      by (rule scheduled_requestTick) (simp_all add: notifyProgress_def assms(2) n)
    then show ?thesis unfolding tick_unfold[OF True d] Drew by simp
  next
    case (Threw e)
    have "scheduled ((notifyProgress progress s)\<lparr>uncaught := uncaught (notifyProgress progress s) @ [e]\<rparr>)"
      by (rule scheduled_frame_independent[OF assms(1)]) (simp_all add: notifyProgress_def)
    then show ?thesis unfolding tick_unfold[OF True d] Threw by simp
  qed
qed

lemma scheduled_animationFrame:
  assumes "scheduled s"
  shows "scheduled (animationFrame host props now h s)"
proof (cases "map_of (frameRequests s) h")
  case None
  then show ?thesis using assms by (simp add: animationFrame_def)
next
  case (Some callback)
  then have "(h, callback) \<in> set (frameRequests s)" by (rule map_of_SomeD)
  then have a: "animationRef s = Some h" using assms unfolding scheduled_def by force
  have "\<forall>r \<in> set (frameRequests s). h = fst r"
    using assms a unfolding scheduled_def by force
  then have e: "filter (\<lambda>r. fst r \<noteq> h) (frameRequests s) = []"
    by (rule filter_requests_empty)
  have "scheduled (s\<lparr>frameRequests := []\<rparr>)" using assms by (simp add: scheduled_def)
  then have "scheduled (tick host props now callback (s\<lparr>frameRequests := []\<rparr>))"
    by (rule scheduled_tick) simp
  then show ?thesis using Some e by (simp add: animationFrame_def)
qed

lemma scheduled_mediaRecorder_onerror:
  assumes "scheduled s"
  shows "scheduled (mediaRecorder_onerror c recorderError s)"
    and "frameRequests (mediaRecorder_onerror c recorderError s) = []"
proof -
  have f: "frameRequests (mediaRecorder_onerror c recorderError s) = frameRequests (cancelAnimation s)"
    "animationRef (mediaRecorder_onerror c recorderError s) = animationRef (cancelAnimation s)"
    "nextHandle (mediaRecorder_onerror c recorderError s) = nextHandle (cancelAnimation s)"
    by (simp_all add: mediaRecorder_onerror_def Let_def notifyStatus_def onError_def)
  show "scheduled (mediaRecorder_onerror c recorderError s)"
    by (rule scheduled_frame_independent[OF scheduled_cancelAnimation(1)[OF assms] f])
  show "frameRequests (mediaRecorder_onerror c recorderError s) = []"
    using f(1) scheduled_cancelAnimation(2)[OF assms] by simp
qed

lemma scheduled_mediaRecorder_onstop:
  "scheduled s \<Longrightarrow> scheduled (mediaRecorder_onstop c s)"
  by (simp add: scheduled_def mediaRecorder_onstop_def)

lemma no_callback_after_cancelAnimation:
  assumes "scheduled s"
  shows "animationFrame host props now h (cancelAnimation s) = cancelAnimation s"
  using scheduled_cancelAnimation(2)[OF assms] by (simp add: animationFrame_def)

lemma cancelAnimation_clears:
  assumes "animationRef s = Some h" "h \<noteq> 0"
  shows "animationRef (cancelAnimation s) = None"
    and "h \<notin> fst ` set (frameRequests (cancelAnimation s))"
  using assms by (auto simp: cancelAnimation_def cancelAnimationFrame_def)

lemma cancelAnimation_idem: "cancelAnimation (cancelAnimation s) = cancelAnimation s"
  by (auto simp: cancelAnimation_def cancelAnimationFrame_def split: option.splits)

lemma animationFrame_not_pending:
  "h \<notin> fst ` set (frameRequests s) \<Longrightarrow> animationFrame host props now h s = s"
  using map_of_eq_None_iff[of "frameRequests s" h] by (simp add: animationFrame_def)

section \<open>renderVideo: what is rejected and what is notified\<close>

lemma startAnimation_fields:
  "startTimeRef (startAnimation now callback s) = now"
  "animationRef (startAnimation now callback s) = Some (nextHandle s)"
  "frameRequests (startAnimation now callback s)
     = frameRequests (cancelAnimation s) @ [(nextHandle s, callback)]"
  "captures (startAnimation now callback s) = captures s"
  "errorLog (startAnimation now callback s) = errorLog s"
  "statusLog (startAnimation now callback s) = statusLog s @ [Rendering]"
  "progressLog (startAnimation now callback s) = progressLog s @ [0]"
  by (auto simp: startAnimation_def requestTick_def requestAnimationFrame_def cancelAnimation_def
      cancelAnimationFrame_def notifyStatus_def notifyProgress_def split: option.splits)

lemma cancelAnimation_requests:
  "animationRef s = Some h \<Longrightarrow> h \<noteq> 0 \<Longrightarrow>
   frameRequests (cancelAnimation s) = filter (\<lambda>r. fst r \<noteq> h) (frameRequests s)"
  by (simp add: cancelAnimation_def cancelAnimationFrame_def)

text \<open>
  C4, as the code has it. \<open>renderVideo\<close> does not look at the renders in flight: with the
  canvas mounted, \<open>MediaRecorder\<close> supported, a 2d context and the images cached, every call
  is accepted whatever captures exist. It creates and starts one more recorder, cancels
  the animation-frame request stored in \<open>animationRef\<close>, restarts the clock at \<open>now\<close> and
  requests a frame for the new capture; it notifies no error.
\<close>

theorem renderVideo_no_inflight_guard:
  assumes "canvasRef s" and "MEDIA_RECORDER_SUPPORT host" and "context2d host"
    and "imageCacheRef s = Some images"
  shows "\<exists>s'. renderVideo host props now s = (Inr (length (captures s)), s')
     \<and> captures s' = captures s
          @ [\<lparr>recorderState = Recording, tracksLive = True, resultPromise = Pending\<rparr>]
     \<and> startTimeRef s' = now
     \<and> animationRef s' = Some (nextHandle s)
     \<and> frameRequests s'
          = frameRequests (cancelAnimation s) @ [(nextHandle s, (images, length (captures s)))]
     \<and> (\<forall>h. animationRef s = Some h \<and> h \<noteq> 0 \<longrightarrow>
           frameRequests (cancelAnimation s) = filter (\<lambda>r. fst r \<noteq> h) (frameRequests s))
     \<and> errorLog s' = errorLog s
     \<and> statusLog s' = statusLog s @ [Rendering]
     \<and> progressLog s' = progressLog s @ [0]"
proof -
  define s2 where "s2 = s\<lparr>captures := captures s
      @ [\<lparr>recorderState = Recording, tracksLive = True, resultPromise = Pending\<rparr>]\<rparr>"
  have r: "renderVideo host props now s
      = (Inr (length (captures s)), startAnimation now (images, length (captures s)) s2)"
    using assms by (simp add: renderVideo_def renderBody_def loadImages_def Let_def s2_def)
  have c: "frameRequests (cancelAnimation s2) = frameRequests (cancelAnimation s)"
    by (simp add: s2_def cancelAnimation_def cancelAnimationFrame_def split: option.splits)
  have f: "nextHandle s2 = nextHandle s" "errorLog s2 = errorLog s" "statusLog s2 = statusLog s"
    "progressLog s2 = progressLog s"
    "captures s2 = captures s @ [\<lparr>recorderState = Recording, tracksLive = True, resultPromise = Pending\<rparr>]"
    by (simp_all add: s2_def)
  show ?thesis
    unfolding r
    by (intro exI[of _ "startAnimation now (images, length (captures s)) s2"])
       (simp add: startAnimation_fields c f cancelAnimation_requests)
qed

theorem renderVideo_no_inflight_guard_witness:
  "(let s1 = snd (renderVideo exampleHost pageProps 0 mounted)
    in canvasRef s1 \<and> MEDIA_RECORDER_SUPPORT exampleHost \<and> context2d exampleHost
       \<and> imageCacheRef s1 = Some images5
       \<and> map resultPromise (captures s1) = [Pending]
       \<and> animationRef s1 = Some 1
       \<and> (\<exists>s'. renderVideo exampleHost pageProps 1000 s1 = (Inr 1, s')
             \<and> startTimeRef s' = 1000
             \<and> animationRef s' = Some 2
             \<and> frameRequests s' = [(2, (images5, 1))]
             \<and> errorLog s' = []))"
proof -
  define s1 where "s1 = snd (renderVideo exampleHost pageProps 0 mounted)"
  have s1: "s1 = mounted\<lparr>imageCacheRef := Some images5, startTimeRef := 0, nextHandle := 2,
        animationRef := Some 1, frameRequests := [(1, (images5, 0))],
        captures := [\<lparr>recorderState = Recording, tracksLive = True, resultPromise = Pending\<rparr>],
        statusLog := [LoadingAssets, Rendering], progressLog := [0]\<rparr>"
    unfolding s1_def first_render by simp
  have h: "canvasRef s1" "MEDIA_RECORDER_SUPPORT exampleHost" "context2d exampleHost"
    "imageCacheRef s1 = Some images5"
    by (simp_all add: s1 mounted_def exampleHost_def)
  have v: "map resultPromise (captures s1) = [Pending]" "animationRef s1 = Some 1"
    "length (captures s1) = 1" "nextHandle s1 = 2" "errorLog s1 = []"
    "frameRequests (cancelAnimation s1) = []"
    by (simp_all add: s1 mounted_def cancelAnimation_def cancelAnimationFrame_def)
  from renderVideo_no_inflight_guard[OF h, of pageProps 1000]
  obtain s' where "renderVideo exampleHost pageProps 1000 s1 = (Inr (length (captures s1)), s')"
    "startTimeRef s' = 1000" "animationRef s' = Some (nextHandle s1)"
    "frameRequests s' = frameRequests (cancelAnimation s1) @ [(nextHandle s1, (images5, length (captures s1)))]"
    "errorLog s' = errorLog s1"
    by blast
  then have "\<exists>s'. renderVideo exampleHost pageProps 1000 s1 = (Inr 1, s')
             \<and> startTimeRef s' = 1000
             \<and> animationRef s' = Some 2
             \<and> frameRequests s' = [(2, (images5, 1))]
             \<and> errorLog s' = []"
    using v by simp
  then show ?thesis
    unfolding Let_def s1_def[symmetric] using h v by simp
qed

theorem renderVideo_second_call_counterexample:
  "(let s1 = snd (renderVideo exampleHost pageProps 0 mounted);
        r2 = renderVideo exampleHost pageProps 1000 s1
    in map resultPromise (captures s1) = [Pending]
     \<and> map recorderState (captures s1) = [Recording]
     \<and> frameRequests s1 = [(1, (images5, 0))]
     \<and> startTimeRef s1 = 0
     \<and> fst r2 = Inr 1
     \<and> errorLog (snd r2) = []
     \<and> frameRequests (snd r2) = [(2, (images5, 1))]
     \<and> startTimeRef (snd r2) = 1000
     \<and> map recorderState (captures (snd r2)) = [Recording, Recording])"
  unfolding Let_def first_render snd_conv
  by (simp add: renderVideo_def renderBody_def loadImages_def startAnimation_def requestTick_def
      requestAnimationFrame_def cancelAnimation_def cancelAnimationFrame_def notifyStatus_def
      notifyProgress_def mounted_def exampleHost_def Let_def)


lemma empty_render:
  "renderVideo exampleHost emptyProps 0 mounted =
     (Inr 0, mounted\<lparr>imageCacheRef := Some [], startTimeRef := 0, nextHandle := 2,
        animationRef := Some 1, frameRequests := [(1, ([], 0))],
        captures := [\<lparr>recorderState = Recording, tracksLive = True, resultPromise = Pending\<rparr>],
        statusLog := [LoadingAssets, Rendering], progressLog := [0]\<rparr>)"
  by (simp add: renderVideo_def renderBody_def loadImages_def startAnimation_def requestTick_def
      requestAnimationFrame_def cancelAnimation_def cancelAnimationFrame_def notifyStatus_def
      notifyProgress_def mounted_def emptyProps_def pageProps_def exampleHost_def Let_def)

lemma empty_frame:
  "animationFrame exampleHost emptyProps 16 1
     (mounted\<lparr>imageCacheRef := Some [], startTimeRef := 0, nextHandle := 2,
        animationRef := Some 1, frameRequests := [(1, ([], 0))],
        captures := [\<lparr>recorderState = Recording, tracksLive = True, resultPromise = Pending\<rparr>],
        statusLog := [LoadingAssets, Rendering], progressLog := [0]\<rparr>)
   = mounted\<lparr>imageCacheRef := Some [], startTimeRef := 0, nextHandle := 2,
        animationRef := Some 1, frameRequests := [],
        captures := [\<lparr>recorderState = Recording, tracksLive = True, resultPromise = Pending\<rparr>],
        statusLog := [LoadingAssets, Rendering], progressLog := [0, 1 / 1875],
        uncaught := [TypeError]\<rparr>"
  by (simp add: animationFrame_def tick_def drawFrame_def composeFrame_def resolveScene_def
      element_def clamp_def mounted_def emptyProps_def pageProps_def VIDEO_DURATION_SECONDS_def
      notifyProgress_def Let_def)

text \<open>
  C5, as the code has it. \<open>renderVideo\<close> does not validate the scene list: with an empty
  list (canvas mounted, \<open>MediaRecorder\<close> supported, a 2d context) the call is accepted. It
  notifies no error and no \<open>error\<close> status, starts a recorder and requests the first
  animation frame.
\<close>

theorem renderVideo_accepts_empty_scenes:
  assumes "scenes props = []" and "canvasRef s" and "MEDIA_RECORDER_SUPPORT host" and "context2d host"
  shows "\<exists>s'. renderVideo host props now s = (Inr (length (captures s)), s')
     \<and> errorLog s' = errorLog s
     \<and> statusLog s' = statusLog s @ (if imageCacheRef s = None then [LoadingAssets] else []) @ [Rendering]
     \<and> captures s' = captures s
          @ [\<lparr>recorderState = Recording, tracksLive = True, resultPromise = Pending\<rparr>]
     \<and> animationRef s' = Some (nextHandle s)
     \<and> nextHandle s \<in> fst ` set (frameRequests s')"
  using assms
  by (cases "imageCacheRef s")
     (auto simp: renderVideo_def renderBody_def loadImages_def Let_def startAnimation_def
        requestTick_def requestAnimationFrame_def cancelAnimation_def cancelAnimationFrame_def
        notifyStatus_def notifyProgress_def split: option.splits)

theorem renderVideo_accepts_empty_scenes_witness:
  "scenes emptyProps = [] \<and> canvasRef mounted \<and> MEDIA_RECORDER_SUPPORT exampleHost
   \<and> context2d exampleHost
   \<and> (\<exists>s'. renderVideo exampleHost emptyProps 0 mounted = (Inr 0, s')
         \<and> errorLog s' = []
         \<and> statusLog s' = [LoadingAssets, Rendering]
         \<and> map recorderState (captures s') = [Recording]
         \<and> animationRef s' = Some 1)"
proof -
  have h: "scenes emptyProps = []" "canvasRef mounted" "MEDIA_RECORDER_SUPPORT exampleHost"
    "context2d exampleHost"
    by (simp_all add: emptyProps_def mounted_def exampleHost_def)
  from renderVideo_accepts_empty_scenes[OF h, of 0]
  obtain s' where s': "renderVideo exampleHost emptyProps 0 mounted = (Inr (length (captures mounted)), s')"
    "errorLog s' = errorLog mounted"
    "statusLog s' = statusLog mounted @ (if imageCacheRef mounted = None then [LoadingAssets] else []) @ [Rendering]"
    "captures s' = captures mounted
          @ [\<lparr>recorderState = Recording, tracksLive = True, resultPromise = Pending\<rparr>]"
    "animationRef s' = Some (nextHandle mounted)"
    by blast
  have "renderVideo exampleHost emptyProps 0 mounted = (Inr 0, s')
         \<and> errorLog s' = []
         \<and> statusLog s' = [LoadingAssets, Rendering]
         \<and> map recorderState (captures s') = [Recording]
         \<and> animationRef s' = Some 1"
    using s' by (simp add: mounted_def)
  then have "\<exists>s'. renderVideo exampleHost emptyProps 0 mounted = (Inr 0, s')
         \<and> errorLog s' = []
         \<and> statusLog s' = [LoadingAssets, Rendering]
         \<and> map recorderState (captures s') = [Recording]
         \<and> animationRef s' = Some 1"
    by (rule exI)
  then show ?thesis using h by simp
qed

theorem renderVideo_empty_scenes_counterexample:
  "(let r = renderVideo exampleHost emptyProps 0 mounted;
        s2 = animationFrame exampleHost emptyProps 16 1 (snd r)
    in scenes emptyProps = []
     \<and> fst r = Inr 0
     \<and> errorLog (snd r) = []
     \<and> statusLog (snd r) = [LoadingAssets, Rendering]
     \<and> map recorderState (captures (snd r)) = [Recording]
     \<and> map fst (frameRequests (snd r)) = [1]
     \<and> uncaught s2 = [TypeError]
     \<and> frameRequests s2 = []
     \<and> errorLog s2 = []
     \<and> statusLog s2 = [LoadingAssets, Rendering]
     \<and> map resultPromise (captures s2) = [Pending])"
  unfolding Let_def empty_render snd_conv fst_conv empty_frame
  by (simp add: mounted_def emptyProps_def)










end
